theory Spec2Isabelle
  imports
    Main
    "HOL-Library.Char_ord"
    "HOL-Library.List_Lexorder"
    "HOL-Library.Product_Lexorder"
begin

section \<open>Python values, errors and dictionaries\<close>

text \<open>
  The program is dynamically typed: attribute values of messages and signals, property
  deltas, change records and the report are all Python objects.  They are embedded in
  one datatype.  Numbers are Python's unbounded integers; floating-point attribute
  values are outside this model.  A string is a sequence of characters with code points
  below 256.

  A dictionary is an association list in insertion order, as Python keeps it.
\<close>

datatype pyval =
    PNone
  | PBool bool
  | PInt int
  | PStr string
  | PList "pyval list"
  | PDict "(pyval \<times> pyval) list"

text \<open>Every \<open>raise\<close> of the program and of the builtins it calls is a value.\<close>

datatype error =
    AttributeError
  | TypeError
  | ValueError
  | KeyError
  | LoadError
  | CriticalError

fun and_then :: "error + 'a \<Rightarrow> ('a \<Rightarrow> error + 'b) \<Rightarrow> error + 'b" where
  "and_then (Inl e) f = Inl e"
| "and_then (Inr x) f = f x"

text \<open>\<open>d[k] = v\<close>: an existing key keeps its position, a new key goes last.\<close>

fun dict_set :: "('k \<times> 'v) list \<Rightarrow> 'k \<Rightarrow> 'v \<Rightarrow> ('k \<times> 'v) list" where
  "dict_set [] k v = [(k, v)]"
| "dict_set ((k', v') # d) k v =
     (if k' = k then (k, v) # d else (k', v') # dict_set d k v)"

text \<open>\<open>d[k]\<close> raises \<open>KeyError\<close> on a missing key.\<close>

fun dict_get :: "('k \<times> 'v) list \<Rightarrow> 'k \<Rightarrow> error + 'v" where
  "dict_get [] k = Inl KeyError"
| "dict_get ((k', v') # d) k = (if k' = k then Inr v' else dict_get d k)"

definition keys :: "('k \<times> 'v) list \<Rightarrow> 'k list" where
  "keys d = map fst d"

text \<open>A dictionary display \<open>{k1: v1, k2: v2, ...}\<close> stores its items left to right.\<close>

definition dict_of :: "('k \<times> 'v) list \<Rightarrow> ('k \<times> 'v) list" where
  "dict_of kvs = fold (\<lambda>(k, v) d. dict_set d k v) kvs []"

text \<open>\<open>a | b\<close>: the items of \<open>b\<close> are stored into a copy of \<open>a\<close>.\<close>

definition dict_union :: "('k \<times> 'v) list \<Rightarrow> ('k \<times> 'v) list \<Rightarrow> ('k \<times> 'v) list" where
  "dict_union a b = fold (\<lambda>(k, v) d. dict_set d k v) b a"

subsection \<open>Equality of Python values\<close>

text \<open>
  \<open>==\<close> compares \<open>bool\<close> and \<open>int\<close> by value (\<open>True == 1\<close>), lists element by
  element and dictionaries as mappings, whatever their insertion order.
\<close>

fun num_of :: "pyval \<Rightarrow> int option" where
  "num_of (PBool b) = Some (if b then 1 else 0)"
| "num_of (PInt i) = Some i"
| "num_of _ = None"

definition atom_eq :: "pyval \<Rightarrow> pyval \<Rightarrow> bool" where
  "atom_eq a b =
     (case (a, b) of
        (PNone, PNone) \<Rightarrow> True
      | (PStr s, PStr t) \<Rightarrow> s = t
      | _ \<Rightarrow> (case (num_of a, num_of b) of (Some i, Some j) \<Rightarrow> i = j | _ \<Rightarrow> False))"

fun py_lookup :: "(pyval \<times> pyval) list \<Rightarrow> pyval \<Rightarrow> pyval option" where
  "py_lookup [] k = None"
| "py_lookup ((k', v') # d) k = (if atom_eq k' k then Some v' else py_lookup d k)"

fun py_eq :: "pyval \<Rightarrow> pyval \<Rightarrow> bool"
  and py_eq_list :: "pyval list \<Rightarrow> pyval list \<Rightarrow> bool"
  and py_eq_items :: "(pyval \<times> pyval) list \<Rightarrow> (pyval \<times> pyval) list \<Rightarrow> bool" where
  "py_eq (PList xs) b = (case b of PList ys \<Rightarrow> py_eq_list xs ys | _ \<Rightarrow> False)"
| "py_eq (PDict d) b =
     (case b of PDict e \<Rightarrow> length d = length e \<and> py_eq_items d e | _ \<Rightarrow> False)"
| "py_eq PNone b = atom_eq PNone b"
| "py_eq (PBool x) b = atom_eq (PBool x) b"
| "py_eq (PInt i) b = atom_eq (PInt i) b"
| "py_eq (PStr s) b = atom_eq (PStr s) b"
| "py_eq_list [] ys = (ys = [])"
| "py_eq_list (x # xs) ys =
     (case ys of [] \<Rightarrow> False | y # ys' \<Rightarrow> py_eq x y \<and> py_eq_list xs ys')"
| "py_eq_items [] e = True"
| "py_eq_items ((k, v) # d) e =
     ((case py_lookup e k of None \<Rightarrow> False | Some w \<Rightarrow> py_eq v w) \<and> py_eq_items d e)"

subsection \<open>The builtins \<open>hex\<close>, \<open>str\<close>, \<open>int\<close> and \<open>str.join\<close>\<close>

definition digit_char :: "nat \<Rightarrow> char" where
  "digit_char d = ''0123456789abcdef'' ! (d mod 16)"

function to_base :: "nat \<Rightarrow> nat \<Rightarrow> string" where
  "to_base b n =
     (if n < b \<or> b < 2 then [digit_char n]
      else to_base b (n div b) @ [digit_char (n mod b)])"
  by pat_completeness auto
termination
  by (relation "measure snd") auto

definition int_to_base :: "string \<Rightarrow> nat \<Rightarrow> int \<Rightarrow> string" where
  "int_to_base prefix b i =
     (if i < 0 then CHR ''-'' # prefix @ to_base b (nat (- i))
      else prefix @ to_base b (nat i))"

text \<open>\<open>hex(value)\<close>: defined on \<open>int\<close> and \<open>bool\<close>, \<open>TypeError\<close> on the rest.\<close>

definition py_hex :: "pyval \<Rightarrow> error + string" where
  "py_hex value =
     (case num_of value of
        None \<Rightarrow> Inl TypeError
      | Some i \<Rightarrow> Inr (int_to_base ''0x'' 16 i))"

text \<open>
  \<open>repr\<close> of a string: single quotes unless the text has a single and no double quote;
  the quote, the backslash and the characters that are not printable (the controls, the
  no-break space and the soft hyphen) are escaped.
\<close>

definition str_quote :: "string \<Rightarrow> char" where
  "str_quote s =
     (if CHR 0x27 \<in> set s \<and> CHR 0x22 \<notin> set s then CHR 0x22 else CHR 0x27)"

definition escape_char :: "char \<Rightarrow> char \<Rightarrow> string" where
  "escape_char q c =
     (if c = q \<or> c = CHR 0x5C then [CHR 0x5C, c]
      else if c = CHR 0x09 then [CHR 0x5C, CHR ''t'']
      else if c = CHR 0x0A then [CHR 0x5C, CHR ''n'']
      else if c = CHR 0x0D then [CHR 0x5C, CHR ''r'']
      else if (of_char c :: nat) < 32 \<or>
              (127 \<le> (of_char c :: nat) \<and> (of_char c :: nat) \<le> 160) \<or> c = CHR 0xAD
        then [CHR 0x5C, CHR ''x'', digit_char (of_char c div 16), digit_char (of_char c mod 16)]
      else [c])"

definition repr_str :: "string \<Rightarrow> string" where
  "repr_str s = (let q = str_quote s in q # concat (map (escape_char q) s) @ [q])"

fun join :: "string \<Rightarrow> string list \<Rightarrow> string" where
  "join sep [] = []"
| "join sep [x] = x"
| "join sep (x # y # ys) = x @ sep @ join sep (y # ys)"

text \<open>
  An \<open>int\<close> is written in base ten.  The interpreter refuses, with a \<open>ValueError\<close>, to
  write or to read a number of more than 4300 decimal digits (its default limit on the
  conversions between \<open>int\<close> and \<open>str\<close>; \<open>hex\<close> is not subject to it).
\<close>

definition max_str_digits :: nat where
  "max_str_digits = 4300"

definition int_repr :: "int \<Rightarrow> error + string" where
  "int_repr i =
     (if max_str_digits < length (to_base 10 (nat \<bar>i\<bar>)) then Inl ValueError
      else Inr (int_to_base [] 10 i))"

function py_repr :: "pyval \<Rightarrow> error + string"
  and py_repr_list :: "pyval list \<Rightarrow> error + string list"
  and py_repr_items :: "(pyval \<times> pyval) list \<Rightarrow> error + string list" where
  "py_repr PNone = Inr ''None''"
| "py_repr (PBool b) = Inr (if b then ''True'' else ''False'')"
| "py_repr (PInt i) = int_repr i"
| "py_repr (PStr s) = Inr (repr_str s)"
| "py_repr (PList xs) =
     and_then (py_repr_list xs) (\<lambda>ss. Inr (''['' @ join '', '' ss @ '']''))"
| "py_repr (PDict d) =
     and_then (py_repr_items d) (\<lambda>ss. Inr (''{'' @ join '', '' ss @ ''}''))"
| "py_repr_list [] = Inr []"
| "py_repr_list (x # xs) =
     and_then (py_repr x) (\<lambda>s. and_then (py_repr_list xs) (\<lambda>ss. Inr (s # ss)))"
| "py_repr_items [] = Inr []"
| "py_repr_items ((k, v) # d) =
     and_then (py_repr k) (\<lambda>a. and_then (py_repr v) (\<lambda>b.
     and_then (py_repr_items d) (\<lambda>ss. Inr ((a @ '': '' @ b) # ss))))"
  by pat_completeness auto
termination
  by (relation "measure (case_sum size
        (case_sum (size_list size) (size_list (size_prod size size))))") auto

text \<open>\<open>str(value)\<close> is the text itself on a string and \<open>repr\<close> elsewhere.\<close>

definition py_str :: "pyval \<Rightarrow> error + string" where
  "py_str value = (case value of PStr s \<Rightarrow> Inr s | _ \<Rightarrow> py_repr value)"

text \<open>
  \<open>int(text)\<close>, base ten: surrounding whitespace is dropped, one sign is allowed, and
  single underscores may separate digits.  Anything else is a \<open>ValueError\<close>.  The
  whitespace that \<open>int\<close> drops is the characters 9 to 13 and the space and, above 127,
  the next-line control and the no-break space; the separators 28 to 31 are not dropped.
\<close>

definition is_space :: "char \<Rightarrow> bool" where
  "is_space c =
     (let n = (of_char c :: nat) in (9 \<le> n \<and> n \<le> 13) \<or> n = 32 \<or> n = 133 \<or> n = 160)"

definition is_digit :: "char \<Rightarrow> bool" where
  "is_digit c = (let n = (of_char c :: nat) in 48 \<le> n \<and> n \<le> 57)"

definition strip :: "string \<Rightarrow> string" where
  "strip s = rev (dropWhile is_space (rev (dropWhile is_space s)))"

fun parse_digits :: "string \<Rightarrow> nat \<Rightarrow> nat option" where
  "parse_digits [] acc = Some acc"
| "parse_digits (c # cs) acc =
     (if is_digit c then parse_digits cs (10 * acc + (of_char c - 48))
      else if c = CHR ''_'' then
        (case cs of
           [] \<Rightarrow> None
         | c' # _ \<Rightarrow> if is_digit c' then parse_digits cs acc else None)
      else None)"

definition parse_nat :: "string \<Rightarrow> nat option" where
  "parse_nat s =
     (case s of
        [] \<Rightarrow> None
      | c # _ \<Rightarrow> if is_digit c then parse_digits s 0 else None)"

definition int_of_str :: "string \<Rightarrow> error + int" where
  "int_of_str s =
     (let t = strip s;
          (neg, body) =
            (case t of
               c # cs \<Rightarrow>
                 if c = CHR ''-'' then (True, cs)
                 else if c = CHR ''+'' then (False, cs)
                 else (False, t)
             | [] \<Rightarrow> (False, t))
      in case parse_nat body of
           None \<Rightarrow> Inl ValueError
         | Some n \<Rightarrow>
             if max_str_digits < length (filter is_digit body) then Inl ValueError
             else Inr (if neg then - int n else int n))"

definition py_int :: "pyval \<Rightarrow> error + int" where
  "py_int value =
     (case value of
        PInt i \<Rightarrow> Inr i
      | PBool b \<Rightarrow> Inr (if b then 1 else 0)
      | PStr s \<Rightarrow> int_of_str s
      | _ \<Rightarrow> Inl TypeError)"

text \<open>
  \<open>','.join(value)\<close> walks any iterable: a list gives its elements, a string its
  characters, a dictionary its keys.  Every element must be a string.
\<close>

definition py_iter :: "pyval \<Rightarrow> error + pyval list" where
  "py_iter value =
     (case value of
        PList xs \<Rightarrow> Inr xs
      | PStr s \<Rightarrow> Inr (map (\<lambda>c. PStr [c]) s)
      | PDict d \<Rightarrow> Inr (map fst d)
      | _ \<Rightarrow> Inl TypeError)"

fun str_items :: "pyval list \<Rightarrow> error + string list" where
  "str_items [] = Inr []"
| "str_items (x # xs) =
     (case x of
        PStr s \<Rightarrow> and_then (str_items xs) (\<lambda>ss. Inr (s # ss))
      | _ \<Rightarrow> Inl TypeError)"

definition py_join :: "string \<Rightarrow> pyval \<Rightarrow> error + string" where
  "py_join sep value =
     and_then (py_iter value) (\<lambda>xs. and_then (str_items xs) (\<lambda>ss. Inr (join sep ss)))"

section \<open>The program\<close>

text \<open>A \<open>for\<close> loop whose body may raise: the first error ends the loop.\<close>

fun for_each :: "'a list \<Rightarrow> 's \<Rightarrow> ('a \<Rightarrow> 's \<Rightarrow> error + 's) \<Rightarrow> error + 's" where
  "for_each [] s body = Inr s"
| "for_each (x # xs) s body =
     (case body x s of Inl e \<Rightarrow> Inl e | Inr s' \<Rightarrow> for_each xs s' body)"

subsection \<open>Schemas and entities\<close>

definition message_properties :: "(string \<times> string) list" where
  "message_properties =
     [(''frame_id'', ''hex''),
      (''is_extended_frame'', ''basic''),
      (''is_fd'', ''basic''),
      (''length'', ''basic''),
      (''send_type'', ''basic''),
      (''cycle_time'', ''basic''),
      (''senders'', ''list''),
      (''receivers'', ''list'')]"

definition signal_properties :: "(string \<times> string) list" where
  "signal_properties =
     [(''minimum'', ''basic''),
      (''maximum'', ''basic''),
      (''start'', ''basic''),
      (''length'', ''basic''),
      (''byte_order'', ''basic''),
      (''is_signed'', ''basic''),
      (''initial'', ''str''),
      (''invalid'', ''basic''),
      (''unit'', ''basic''),
      (''scale'', ''basic''),
      (''offset'', ''basic''),
      (''is_float'', ''basic''),
      (''choices'', ''dict''),
      (''spn'', ''basic'')]"

text \<open>
  A signal or message object of the parsing library: its name and the table of its data
  attributes, which \<open>getattr\<close> reads.  A parsed message lists its signals
  (\<open>dbc_signals\<close> stands for the attribute \<open>signals\<close>); the loader adds the
  dictionary \<open>msg_signals\<close>.
\<close>

record entity =
  name :: string
  attrs :: "(string \<times> pyval) list"

record dbc_message = entity +
  dbc_signals :: "entity list"

record message = entity +
  msg_signals :: "(string \<times> entity) list"

record dbc =
  messages :: "dbc_message list"
  version :: "string option"

definition getattr :: "'a entity_scheme \<Rightarrow> string \<Rightarrow> error + pyval" where
  "getattr item p =
     (case map_of (attrs item) p of None \<Rightarrow> Inl AttributeError | Some v \<Rightarrow> Inr v)"

subsection \<open>\<open>dbc_loader\<close>\<close>

text \<open>
  \<open>cantools.db.load_file\<close> is the parameter \<open>load_file\<close>; where it is
  \<open>None\<close> the library raises, which is \<open>Inl LoadError\<close>.  A side that is not
  supplied has no messages and version \<open>None\<close>.
\<close>

definition load_message :: "dbc_message \<Rightarrow> message" where
  "load_message dbc_message =
     \<lparr>name = name dbc_message, attrs = attrs dbc_message,
      msg_signals = fold (\<lambda>signal signals. dict_set signals (name signal) signal)
                      (dbc_signals dbc_message) []\<rparr>"

definition dbc_loader ::
  "(string \<Rightarrow> dbc option) \<Rightarrow> string option \<Rightarrow>
     error + ((string \<times> message) list \<times> string option)" where
  "dbc_loader load_file dbc_file =
     (case dbc_file of
        None \<Rightarrow> Inr ([], None)
      | Some path \<Rightarrow>
          and_then (case load_file path of None \<Rightarrow> Inl LoadError | Some dbc \<Rightarrow> Inr dbc)
            (\<lambda>dbc.
            Inr (fold (\<lambda>dbc_message messages.
                         dict_set messages (name dbc_message) (load_message dbc_message))
                   (messages dbc) [],
                 Some (case version dbc of
                         None \<Rightarrow> ''unknown''
                       | Some v \<Rightarrow> if length v = 0 then ''unknown'' else v))))"

subsection \<open>\<open>converter\<close>\<close>

definition py_items :: "pyval \<Rightarrow> error + (pyval \<times> pyval) list" where
  "py_items value = (case value of PDict d \<Rightarrow> Inr d | _ \<Rightarrow> Inl AttributeError)"

text \<open>
  In \<open>result[int(number)] = str(name)\<close> the right-hand side is evaluated first, then
  the subscript of the target.
\<close>

definition converter :: "pyval \<Rightarrow> string \<Rightarrow> error + pyval" where
  "converter value from_type =
     (if value = PNone then Inr PNone
      else if from_type = ''hex'' then and_then (py_hex value) (\<lambda>s. Inr (PStr s))
      else if from_type = ''str'' then and_then (py_str value) (\<lambda>s. Inr (PStr s))
      else if from_type = ''dict'' then
        and_then (py_items value) (\<lambda>items.
        and_then (for_each items [] (\<lambda>(number, name) result.
                    and_then (py_str name) (\<lambda>label.
                    and_then (py_int number) (\<lambda>i. Inr (dict_set result i label)))))
          (\<lambda>result. Inr (PDict (map (\<lambda>(k, v). (PInt k, PStr v)) (sort result)))))
      else if from_type = ''list'' then and_then (py_join '','' value) (\<lambda>s. Inr (PStr s))
      else Inr value)"

subsection \<open>\<open>compare_dictionaries\<close>\<close>

definition compare_dictionaries ::
  "('k::linorder \<times> 'a) list \<Rightarrow> ('k \<times> 'b) list \<Rightarrow> 'k list \<times> 'k list \<times> 'k list" where
  "compare_dictionaries old new =
     (let old_set = set (keys old);
          new_set = set (keys new);
          same = old_set \<inter> new_set;
          deleted = old_set - new_set;
          added = new_set - old_set
      in (sorted_list_of_set added, sorted_list_of_set same, sorted_list_of_set deleted))"

subsection \<open>\<open>build_change\<close> and \<open>build_action\<close>\<close>

definition build_change :: "string \<Rightarrow> pyval \<Rightarrow> pyval \<Rightarrow> (pyval \<times> pyval) list" where
  "build_change action change signals =
     (if signals \<noteq> PNone
      then dict_of [(PStr ''action'', PStr action), (PStr action, change),
                    (PStr ''signals'', signals)]
      else dict_of [(PStr ''action'', PStr action), (PStr action, change)])"

definition property_delta :: "string \<Rightarrow> pyval \<Rightarrow> pyval \<Rightarrow> pyval" where
  "property_delta p old new =
     PDict [(PStr ''name'', PStr p), (PStr ''old'', old), (PStr ''new'', new)]"

definition build_action ::
  "string \<Rightarrow> 'a entity_scheme \<Rightarrow> (string \<times> string) list \<Rightarrow> pyval \<Rightarrow>
     error + (pyval \<times> pyval) list" where
  "build_action action item properties signals =
     and_then
       (for_each properties [] (\<lambda>(item_property, from_type) properties_list.
          and_then (getattr item item_property) (\<lambda>raw.
          and_then (converter raw from_type) (\<lambda>value.
            if action = ''deleted'' then
              Inr (if value \<noteq> PNone
                   then properties_list @ [property_delta item_property value PNone]
                   else properties_list)
            else if action = ''added'' then
              Inr (if value \<noteq> PNone
                   then properties_list @ [property_delta item_property PNone value]
                   else properties_list)
            else Inl CriticalError))))
       (\<lambda>properties_list. Inr (build_change action (PList properties_list) signals))"

subsection \<open>\<open>compare_properties\<close>\<close>

definition compare_properties ::
  "'a entity_scheme \<Rightarrow> 'b entity_scheme \<Rightarrow> (string \<times> string) list \<Rightarrow> error + pyval list" where
  "compare_properties old_object new_object properties =
     for_each properties [] (\<lambda>(p, from_type) changes_list.
       and_then (getattr old_object p) (\<lambda>raw_old.
       and_then (converter raw_old from_type) (\<lambda>old_property.
       and_then (getattr new_object p) (\<lambda>raw_new.
       and_then (converter raw_new from_type) (\<lambda>new_property.
         Inr (if \<not> py_eq old_property new_property
              then changes_list @ [property_delta p old_property new_property]
              else changes_list))))))"

subsection \<open>\<open>compare_messages\<close> and \<open>message_signals\<close>\<close>

definition compare_messages ::
  "message \<Rightarrow> message \<Rightarrow> error + (pyval list \<times> (pyval \<times> pyval) list)" where
  "compare_messages old_message new_message =
     and_then (compare_properties old_message new_message message_properties)
       (\<lambda>message_changes_list.
     (case compare_dictionaries (msg_signals old_message) (msg_signals new_message) of
        (added, same, deleted) \<Rightarrow>
     and_then
       (for_each same [] (\<lambda>n signals_changes.
          and_then (dict_get (msg_signals old_message) n) (\<lambda>old_signal.
          and_then (dict_get (msg_signals new_message) n) (\<lambda>new_signal.
          and_then (compare_properties old_signal new_signal signal_properties)
            (\<lambda>changed_list.
            Inr (if length changed_list > 0
                 then dict_set signals_changes (PStr n)
                        (PDict (build_change ''changed'' (PList changed_list) PNone))
                 else signals_changes))))))
       (\<lambda>signals_changes.
     and_then
       (for_each deleted signals_changes (\<lambda>n signals_changes.
          and_then (dict_get (msg_signals old_message) n) (\<lambda>old_signal.
          and_then (build_action ''deleted'' old_signal signal_properties PNone) (\<lambda>change.
            Inr (dict_set signals_changes (PStr n) (PDict change))))))
       (\<lambda>signals_changes.
     and_then
       (for_each added signals_changes (\<lambda>n signals_changes.
          and_then (dict_get (msg_signals new_message) n) (\<lambda>new_signal.
          and_then (build_action ''added'' new_signal signal_properties PNone) (\<lambda>change.
            Inr (dict_set signals_changes (PStr n) (PDict change))))))
       (\<lambda>signals_changes. Inr (message_changes_list, signals_changes))))))"

definition message_signals ::
  "string \<Rightarrow> (string \<times> entity) list \<Rightarrow> error + (pyval \<times> pyval) list" where
  "message_signals action sigs =
     for_each sigs [] (\<lambda>(n, signal) signals_changes.
       and_then (build_action action signal signal_properties PNone) (\<lambda>change.
         Inr (dict_set signals_changes (PStr n) (PDict change))))"

subsection \<open>\<open>compare_dbc\<close>\<close>

definition version_value :: "string option \<Rightarrow> pyval" where
  "version_value v = (case v of None \<Rightarrow> PNone | Some s \<Rightarrow> PStr s)"

definition compare_dbc ::
  "(string \<Rightarrow> dbc option) \<Rightarrow> string option \<Rightarrow> string option \<Rightarrow>
     error + ((pyval \<times> pyval) list \<times> (pyval \<times> pyval) list)" where
  "compare_dbc load_file old_dbc_file_path new_dbc_file_path =
     and_then (dbc_loader load_file old_dbc_file_path) (\<lambda>(old_dbc, old_version).
     and_then (dbc_loader load_file new_dbc_file_path) (\<lambda>(new_dbc, new_version).
     (case compare_dictionaries old_dbc new_dbc of (added, same, deleted) \<Rightarrow>
     and_then
       (for_each same [] (\<lambda>n dbc_report.
          and_then (dict_get old_dbc n) (\<lambda>old_message.
          and_then (dict_get new_dbc n) (\<lambda>new_message.
          and_then (compare_messages old_message new_message)
            (\<lambda>(message_changed_list, signals_changed_list).
            Inr (if length message_changed_list > 0 \<or> length signals_changed_list > 0
                 then dict_set dbc_report (PStr n)
                        (PDict (build_change ''changed'' (PList message_changed_list)
                                  (PDict signals_changed_list)))
                 else dbc_report))))))
       (\<lambda>dbc_report.
     and_then
       (for_each deleted dbc_report (\<lambda>n dbc_report.
          and_then (dict_get old_dbc n) (\<lambda>old_message.
          and_then (message_signals ''deleted'' (msg_signals old_message)) (\<lambda>sigs.
          and_then (build_action ''deleted'' old_message message_properties (PDict sigs))
            (\<lambda>change. Inr (dict_set dbc_report (PStr n) (PDict change)))))))
       (\<lambda>dbc_report.
     and_then
       (for_each added dbc_report (\<lambda>n dbc_report.
          and_then (dict_get new_dbc n) (\<lambda>new_message.
          and_then (message_signals ''added'' (msg_signals new_message)) (\<lambda>sigs.
          and_then (build_action ''added'' new_message message_properties (PDict sigs))
            (\<lambda>change. Inr (dict_set dbc_report (PStr n) (PDict change)))))))
       (\<lambda>dbc_report.
     (let versions = [];
          versions = (if new_dbc_file_path \<noteq> None
                      then dict_set versions (PStr ''new_version'') (version_value new_version)
                      else versions);
          versions = (if old_dbc_file_path \<noteq> None
                      then dict_set versions (PStr ''old_version'') (version_value old_version)
                      else versions);
          versions = dict_set versions (PStr ''same_version'')
                       (PBool (old_version = new_version))
      in Inr (dbc_report, versions))))))))"

subsection \<open>\<open>get_report\<close>\<close>

text \<open>Truth value of an object, as \<open>not\<close> and \<open>if\<close> take it.\<close>

definition py_truth :: "pyval \<Rightarrow> bool" where
  "py_truth value =
     (case value of
        PNone \<Rightarrow> False
      | PBool b \<Rightarrow> b
      | PInt i \<Rightarrow> i \<noteq> 0
      | PStr s \<Rightarrow> s \<noteq> []
      | PList xs \<Rightarrow> xs \<noteq> []
      | PDict d \<Rightarrow> d \<noteq> [])"

definition get_report ::
  "(string \<Rightarrow> dbc option) \<Rightarrow> (string \<times> string) list \<Rightarrow> (string \<times> string) list \<Rightarrow>
     bool \<Rightarrow> error + (pyval \<times> pyval) list" where
  "get_report load_file old_files new_files unchanged =
     (case compare_dictionaries old_files new_files of (added, same, deleted) \<Rightarrow>
     and_then
       (for_each added [] (\<lambda>file_added compare_report.
          and_then (dict_get new_files file_added) (\<lambda>new_path.
          and_then (compare_dbc load_file None (Some new_path)) (\<lambda>(dbc_report, versions).
            Inr (dict_set compare_report (PStr file_added)
                   (PDict (dict_union (build_change ''added'' (PDict dbc_report) PNone)
                             versions)))))))
       (\<lambda>compare_report.
     and_then
       (for_each deleted compare_report (\<lambda>file_deleted compare_report.
          and_then (dict_get old_files file_deleted) (\<lambda>old_path.
          and_then (compare_dbc load_file (Some old_path) None) (\<lambda>(dbc_report, versions).
            Inr (dict_set compare_report (PStr file_deleted)
                   (PDict (dict_union (build_change ''deleted'' (PDict dbc_report) PNone)
                             versions)))))))
       (\<lambda>compare_report.
       for_each same compare_report (\<lambda>file_same compare_report.
          and_then (dict_get old_files file_same) (\<lambda>old_path.
          and_then (dict_get new_files file_same) (\<lambda>new_path.
          and_then (compare_dbc load_file (Some old_path) (Some new_path))
            (\<lambda>(dbc_report, versions).
          and_then (dict_get versions (PStr ''same_version'')) (\<lambda>same_version.
            if length dbc_report > 0 \<or> \<not> py_truth same_version then
              Inr (dict_set compare_report (PStr file_same)
                     (PDict (dict_union (build_change ''changed'' (PDict dbc_report) PNone)
                               versions)))
            else if unchanged then
              Inr (dict_set compare_report (PStr file_same)
                     (PDict (dict_union (build_change ''unchanged'' (PDict dbc_report) PNone)
                               versions)))
            else Inr compare_report))))))))"

section \<open>Notions used in the statements\<close>

subsection \<open>Loops as lists of results\<close>

text \<open>The results of \<open>f\<close> along a list, or the first error.\<close>

fun map_err :: "('a \<Rightarrow> error + 'b) \<Rightarrow> 'a list \<Rightarrow> error + 'b list" where
  "map_err f [] = Inr []"
| "map_err f (x # xs) =
     (case f x of
        Inl e \<Rightarrow> Inl e
      | Inr y \<Rightarrow> (case map_err f xs of Inl e \<Rightarrow> Inl e | Inr ys \<Rightarrow> Inr (y # ys)))"

text \<open>
  What one pass of the loop of \<open>compare_properties\<close> appends for one schema entry, and
  what one pass of the loop of \<open>build_action\<close> appends.
\<close>

definition property_change ::
  "'a entity_scheme \<Rightarrow> 'b entity_scheme \<Rightarrow> string \<times> string \<Rightarrow> error + pyval list" where
  "property_change old_object new_object = (\<lambda>(p, from_type).
       and_then (getattr old_object p) (\<lambda>raw_old.
       and_then (converter raw_old from_type) (\<lambda>old_property.
       and_then (getattr new_object p) (\<lambda>raw_new.
       and_then (converter raw_new from_type) (\<lambda>new_property.
         Inr (if \<not> py_eq old_property new_property
              then [property_delta p old_property new_property]
              else []))))))"

definition inventory_entry ::
  "string \<Rightarrow> 'a entity_scheme \<Rightarrow> string \<times> string \<Rightarrow> error + pyval list" where
  "inventory_entry action item = (\<lambda>(item_property, from_type).
          and_then (getattr item item_property) (\<lambda>raw.
          and_then (converter raw from_type) (\<lambda>value.
            if action = ''deleted'' then
              Inr (if value \<noteq> PNone
                   then [property_delta item_property value PNone]
                   else [])
            else if action = ''added'' then
              Inr (if value \<noteq> PNone
                   then [property_delta item_property PNone value]
                   else [])
            else Inl CriticalError)))"

subsection \<open>Well-formed objects and well-typed attributes\<close>

text \<open>
  A Python dictionary has hashable keys, no two of them equal.  An attribute value is
  well typed for a conversion kind when the conversion does not raise on it.
\<close>

fun hashable :: "pyval \<Rightarrow> bool" where
  "hashable (PList xs) = False"
| "hashable (PDict d) = False"
| "hashable _ = True"

fun py_distinct :: "pyval list \<Rightarrow> bool" where
  "py_distinct [] = True"
| "py_distinct (k # ks) = (\<not> list_ex (atom_eq k) ks \<and> py_distinct ks)"

fun wf_val :: "pyval \<Rightarrow> bool"
  and wf_vals :: "pyval list \<Rightarrow> bool"
  and wf_items :: "(pyval \<times> pyval) list \<Rightarrow> bool" where
  "wf_val (PList xs) = wf_vals xs"
| "wf_val (PDict d) = (wf_items d \<and> py_distinct (map fst d))"
| "wf_val PNone = True"
| "wf_val (PBool b) = True"
| "wf_val (PInt i) = True"
| "wf_val (PStr s) = True"
| "wf_vals [] = True"
| "wf_vals (x # xs) = (wf_val x \<and> wf_vals xs)"
| "wf_items [] = True"
| "wf_items ((k, v) # d) = (hashable k \<and> wf_val v \<and> wf_items d)"

definition int_like :: "pyval \<Rightarrow> bool" where
  "int_like k = (case py_int k of Inl _ \<Rightarrow> False | Inr _ \<Rightarrow> True)"

definition printable :: "pyval \<Rightarrow> bool" where
  "printable v = (case py_str v of Inl _ \<Rightarrow> False | Inr _ \<Rightarrow> True)"

definition is_str :: "pyval \<Rightarrow> bool" where
  "is_str v = (case v of PStr _ \<Rightarrow> True | _ \<Rightarrow> False)"

definition well_typed :: "pyval \<Rightarrow> string \<Rightarrow> bool" where
  "well_typed value from_type =
     (if value = PNone then True
      else if from_type = ''hex'' then (case num_of value of None \<Rightarrow> False | Some _ \<Rightarrow> True)
      else if from_type = ''str'' then printable value
      else if from_type = ''dict'' then
        (case value of
           PDict d \<Rightarrow> list_all (\<lambda>(k, v). printable v \<and> int_like k) d
         | _ \<Rightarrow> False)
      else if from_type = ''list'' then
        (case py_iter value of Inl _ \<Rightarrow> False | Inr xs \<Rightarrow> list_all is_str xs)
      else wf_val value)"

text \<open>
  An entity is well typed for a schema when it has every attribute of the schema, well
  typed for its kind; a parsed catalog is well typed when its messages and their signals
  are.
\<close>

definition wt_entity :: "'a entity_scheme \<Rightarrow> (string \<times> string) list \<Rightarrow> bool" where
  "wt_entity item properties =
     list_all (\<lambda>(p, from_type).
        case getattr item p of Inl _ \<Rightarrow> False | Inr raw \<Rightarrow> well_typed raw from_type)
       properties"

definition wt_dbc :: "dbc \<Rightarrow> bool" where
  "wt_dbc dbc =
     list_all (\<lambda>dbc_message.
        wt_entity dbc_message message_properties \<and>
        list_all (\<lambda>signal. wt_entity signal signal_properties) (dbc_signals dbc_message))
       (messages dbc)"

definition wt_message :: "message \<Rightarrow> bool" where
  "wt_message m =
     (wt_entity m message_properties \<and>
      list_all (\<lambda>(n, signal). wt_entity signal signal_properties) (msg_signals m))"

subsection \<open>The entries a loop stores in a dictionary\<close>

text \<open>
  The loops of \<open>compare_messages\<close>, \<open>compare_dbc\<close> and \<open>get_report\<close> compute one result
  per name and store an entry for it under that name; \<open>stored\<close> lists the entries in
  loop order.  The functions below are the results of single passes.
\<close>

definition stored ::
  "('a \<Rightarrow> 'k) \<Rightarrow> ('a \<Rightarrow> 'r \<Rightarrow> 'v option) \<Rightarrow> 'a list \<Rightarrow> 'r list \<Rightarrow> ('k \<times> 'v) list" where
  "stored K h xs rs =
     concat (map (\<lambda>(x, r). case h x r of None \<Rightarrow> [] | Some v \<Rightarrow> [(K x, v)]) (zip xs rs))"

definition common_signal ::
  "(string \<times> entity) list \<Rightarrow> (string \<times> entity) list \<Rightarrow> string \<Rightarrow> error + pyval list" where
  "common_signal old_signals new_signals n =
     and_then (dict_get old_signals n) (\<lambda>old_signal.
     and_then (dict_get new_signals n) (\<lambda>new_signal.
       compare_properties old_signal new_signal signal_properties))"

definition whole_signal ::
  "string \<Rightarrow> (string \<times> entity) list \<Rightarrow> string \<Rightarrow> error + (pyval \<times> pyval) list" where
  "whole_signal action sigs n =
     and_then (dict_get sigs n) (\<lambda>signal.
       build_action action signal signal_properties PNone)"

definition changed_signal :: "pyval list \<Rightarrow> pyval option" where
  "changed_signal changed_list =
     (if length changed_list > 0
      then Some (PDict (build_change ''changed'' (PList changed_list) PNone))
      else None)"

definition common_message ::
  "(string \<times> message) list \<Rightarrow> (string \<times> message) list \<Rightarrow> string \<Rightarrow>
     error + (pyval list \<times> (pyval \<times> pyval) list)" where
  "common_message old_dbc new_dbc n =
     and_then (dict_get old_dbc n) (\<lambda>old_message.
     and_then (dict_get new_dbc n) (\<lambda>new_message.
       compare_messages old_message new_message))"

definition changed_message :: "pyval list \<times> (pyval \<times> pyval) list \<Rightarrow> pyval option" where
  "changed_message = (\<lambda>(message_changed_list, signals_changed_list).
     if length message_changed_list > 0 \<or> length signals_changed_list > 0
     then Some (PDict (build_change ''changed'' (PList message_changed_list)
                         (PDict signals_changed_list)))
     else None)"

definition whole_message ::
  "string \<Rightarrow> (string \<times> message) list \<Rightarrow> string \<Rightarrow> error + (pyval \<times> pyval) list" where
  "whole_message action dbc n =
     and_then (dict_get dbc n) (\<lambda>m.
     and_then (message_signals action (msg_signals m)) (\<lambda>sigs.
       build_action action m message_properties (PDict sigs)))"

definition version_entries ::
  "string option \<Rightarrow> string option \<Rightarrow> string option \<Rightarrow> string option \<Rightarrow>
     (pyval \<times> pyval) list" where
  "version_entries old_path new_path old_version new_version =
     (if new_path \<noteq> None then [(PStr ''new_version'', version_value new_version)] else []) @
     (if old_path \<noteq> None then [(PStr ''old_version'', version_value old_version)] else []) @
     [(PStr ''same_version'', PBool (old_version = new_version))]"

definition common_file ::
  "(string \<Rightarrow> dbc option) \<Rightarrow> (string \<times> string) list \<Rightarrow> (string \<times> string) list \<Rightarrow> string \<Rightarrow>
     error + ((pyval \<times> pyval) list \<times> (pyval \<times> pyval) list \<times> pyval)" where
  "common_file load_file old_files new_files n =
     and_then (dict_get old_files n) (\<lambda>old_path.
     and_then (dict_get new_files n) (\<lambda>new_path.
     and_then (compare_dbc load_file (Some old_path) (Some new_path))
       (\<lambda>(dbc_report, versions).
     and_then (dict_get versions (PStr ''same_version'')) (\<lambda>same_version.
       Inr (dbc_report, versions, same_version)))))"

definition changed_file ::
  "bool \<Rightarrow> (pyval \<times> pyval) list \<times> (pyval \<times> pyval) list \<times> pyval \<Rightarrow> pyval option" where
  "changed_file unchanged = (\<lambda>(dbc_report, versions, same_version).
     if length dbc_report > 0 \<or> \<not> py_truth same_version then
       Some (PDict (dict_union (build_change ''changed'' (PDict dbc_report) PNone) versions))
     else if unchanged then
       Some (PDict (dict_union (build_change ''unchanged'' (PDict dbc_report) PNone) versions))
     else None)"

definition added_file ::
  "(string \<Rightarrow> dbc option) \<Rightarrow> (string \<times> string) list \<Rightarrow> string \<Rightarrow> error + pyval" where
  "added_file load_file new_files n =
     and_then (dict_get new_files n) (\<lambda>new_path.
     and_then (compare_dbc load_file None (Some new_path)) (\<lambda>(dbc_report, versions).
       Inr (PDict (dict_union (build_change ''added'' (PDict dbc_report) PNone) versions))))"

definition deleted_file ::
  "(string \<Rightarrow> dbc option) \<Rightarrow> (string \<times> string) list \<Rightarrow> string \<Rightarrow> error + pyval" where
  "deleted_file load_file old_files n =
     and_then (dict_get old_files n) (\<lambda>old_path.
     and_then (compare_dbc load_file (Some old_path) None) (\<lambda>(dbc_report, versions).
       Inr (PDict (dict_union (build_change ''deleted'' (PDict dbc_report) PNone) versions))))"

subsection \<open>Reading a record\<close>

text \<open>\<open>r[k]\<close> on a dictionary object.\<close>

definition subscript :: "pyval \<Rightarrow> pyval \<Rightarrow> error + pyval" where
  "subscript r k = (case r of PDict d \<Rightarrow> dict_get d k | _ \<Rightarrow> Inl TypeError)"

text \<open>The property deltas of a list that are about the attribute \<open>p\<close>.\<close>

definition deltas_of :: "string \<Rightarrow> pyval list \<Rightarrow> pyval list" where
  "deltas_of p changes = filter (\<lambda>c. subscript c (PStr ''name'') = Inr (PStr p)) changes"

subsection \<open>Change records\<close>

text \<open>
  A property delta is a dictionary with the keys \<open>name\<close>, \<open>old\<close> and \<open>new\<close>.  A change
  record carries an \<open>action\<close> tag and, under the key of that name, its payload:
  \<open>action_payload\<close> reads both.  A signal record holds a list of deltas; a message
  record holds a list of deltas and, under \<open>signals\<close>, signal records by name; a file
  record holds message records by name.
\<close>

definition is_delta :: "pyval \<Rightarrow> bool" where
  "is_delta c =
     (case c of
        PDict [(k1, PStr p), (k2, old), (k3, new)] \<Rightarrow>
          k1 = PStr ''name'' \<and> k2 = PStr ''old'' \<and> k3 = PStr ''new''
      | _ \<Rightarrow> False)"

definition delta_list :: "pyval \<Rightarrow> bool" where
  "delta_list payload = (case payload of PList cs \<Rightarrow> list_all is_delta cs | _ \<Rightarrow> False)"

definition action_payload :: "pyval \<Rightarrow> (string \<times> pyval) option" where
  "action_payload r =
     (case subscript r (PStr ''action'') of
        Inr (PStr a) \<Rightarrow>
          (case subscript r (PStr a) of Inr payload \<Rightarrow> Some (a, payload) | Inl _ \<Rightarrow> None)
      | _ \<Rightarrow> None)"

definition named_records :: "(pyval \<Rightarrow> bool) \<Rightarrow> pyval \<Rightarrow> bool" where
  "named_records ok m =
     (case m of PDict d \<Rightarrow> list_all (\<lambda>(k, r). is_str k \<and> ok r) d | _ \<Rightarrow> False)"

definition signal_record :: "string list \<Rightarrow> pyval \<Rightarrow> bool" where
  "signal_record actions r =
     (case action_payload r of
        Some (a, payload) \<Rightarrow> a \<in> set actions \<and> delta_list payload
      | None \<Rightarrow> False)"

definition message_record :: "string list \<Rightarrow> pyval \<Rightarrow> bool" where
  "message_record actions r =
     (case action_payload r of
        Some (a, payload) \<Rightarrow>
          a \<in> set actions \<and> delta_list payload \<and>
          (case subscript r (PStr ''signals'') of
             Inr sigs \<Rightarrow> named_records (signal_record actions) sigs
           | Inl _ \<Rightarrow> False)
      | None \<Rightarrow> False)"

definition file_record :: "string list \<Rightarrow> pyval \<Rightarrow> bool" where
  "file_record actions r =
     (case action_payload r of
        Some (a, payload) \<Rightarrow>
          a \<in> set actions \<and> named_records (message_record actions) payload
      | None \<Rightarrow> False)"

subsection \<open>Full inventories\<close>

text \<open>
  The payload of a whole-entity record as the specification describes it: one property
  delta for each schema entry, in schema order, whose attribute is not \<open>None\<close> on the
  item, holding the normalised value on the side of the item and \<open>None\<close> on the other
  side.  \<open>whole_record\<close> is the record that marks a message and every one of its
  signals with the action, each with its inventory.
\<close>

definition inventory ::
  "bool \<Rightarrow> 'a entity_scheme \<Rightarrow> (string \<times> string) list \<Rightarrow> pyval list \<Rightarrow> bool" where
  "inventory source_is_old item properties payload \<longleftrightarrow>
     list_all2
       (\<lambda>(p, from_type) delta.
          \<exists>raw value.
            getattr item p = Inr raw \<and> converter raw from_type = Inr value \<and>
            delta = (if source_is_old then property_delta p value PNone
                     else property_delta p PNone value))
       (filter (\<lambda>(p, from_type). getattr item p \<noteq> Inr PNone) properties)
       payload"

definition whole_record :: "string \<Rightarrow> message \<Rightarrow> pyval \<Rightarrow> bool" where
  "whole_record action m r \<longleftrightarrow>
     (\<exists>payload sigs.
        r = PDict [(PStr ''action'', PStr action), (PStr action, PList payload),
                   (PStr ''signals'', PDict sigs)] \<and>
        inventory (action = ''deleted'') m message_properties payload \<and>
        keys sigs = map PStr (keys (msg_signals m)) \<and>
        (\<forall>sn s. dict_get (msg_signals m) sn = Inr s \<longrightarrow>
           (\<exists>sp. dict_get sigs (PStr sn) =
                   Inr (PDict [(PStr ''action'', PStr action), (PStr action, PList sp)]) \<and>
                 inventory (action = ''deleted'') s signal_properties sp)))"

subsection \<open>Versions\<close>

text \<open>
  The version of a side as \<open>dbc_loader\<close> returns it: \<open>None\<close> for a side that is not
  supplied, and for a supplied side the catalog's version, \<open>unknown\<close> standing for a
  missing or empty one.
\<close>

definition side_version :: "(string \<Rightarrow> dbc option) \<Rightarrow> string option \<Rightarrow> string option" where
  "side_version load_file path =
     (case path of
        None \<Rightarrow> None
      | Some p \<Rightarrow>
          (case load_file p of
             None \<Rightarrow> None
           | Some dbc \<Rightarrow>
               Some (case version dbc of
                       None \<Rightarrow> ''unknown''
                     | Some v \<Rightarrow> if v = [] then ''unknown'' else v)))"

text \<open>
  The version of a side in the words of the specification: the absent side, too, is
  defaulted to \<open>unknown\<close>.
\<close>

definition spec_version :: "(string \<Rightarrow> dbc option) \<Rightarrow> string option \<Rightarrow> string" where
  "spec_version load_file path =
     (case side_version load_file path of None \<Rightarrow> ''unknown'' | Some v \<Rightarrow> v)"

subsection \<open>Choice maps\<close>

text \<open>
  The content of a choices mapping, as the specification speaks of it: the labels by
  integer key.  A key counts as the integer that \<open>int\<close> gives for it and a label as the
  text that \<open>str\<close> gives for it; of two items whose keys are the same integer the later
  one counts, as with any assignment to a dictionary.  A mapping has no content when a
  key is not numeric.  \<open>normal_choices\<close> is the dictionary with integer keys and string
  labels that holds given items, and \<open>normalised_delta\<close> says that a list of deltas is
  exactly one delta about \<open>choices\<close> whose two values are such dictionaries, sorted by
  key without repetition, with the given contents.
\<close>

definition choice_items :: "(pyval \<times> pyval) list \<Rightarrow> error + (int \<times> string) list" where
  "choice_items d =
     map_err (\<lambda>(number, name).
        and_then (py_str name) (\<lambda>label.
        and_then (py_int number) (\<lambda>i. Inr (i, label)))) d"

definition choice_content :: "pyval \<Rightarrow> (int \<rightharpoonup> string) option" where
  "choice_content value =
     (case value of
        PDict d \<Rightarrow>
          (case choice_items d of Inl _ \<Rightarrow> None | Inr xs \<Rightarrow> Some (map_of (rev xs)))
      | _ \<Rightarrow> None)"

definition normal_choices :: "(int \<times> string) list \<Rightarrow> pyval" where
  "normal_choices xs = PDict (map (\<lambda>(k, v). (PInt k, PStr v)) xs)"

definition normalised_delta ::
  "pyval list \<Rightarrow> (int \<rightharpoonup> string) \<Rightarrow> (int \<rightharpoonup> string) \<Rightarrow> bool" where
  "normalised_delta ds old_map new_map \<longleftrightarrow>
     (\<exists>old_items new_items.
        ds = [PDict [(PStr ''name'', PStr ''choices''),
                     (PStr ''old'', normal_choices old_items),
                     (PStr ''new'', normal_choices new_items)]] \<and>
        sorted (map fst old_items) \<and> distinct (map fst old_items) \<and>
        map_of old_items = old_map \<and>
        sorted (map fst new_items) \<and> distinct (map fst new_items) \<and>
        map_of new_items = new_map)"

section \<open>Example catalogs\<close>

definition mk_signal :: "string \<Rightarrow> pyval \<Rightarrow> pyval \<Rightarrow> entity" where
  "mk_signal n minimum choices =
     \<lparr>name = n,
      attrs =
        [(''minimum'', minimum), (''maximum'', PInt 1), (''start'', PInt 0),
         (''length'', PInt 1), (''byte_order'', PStr ''little_endian''),
         (''is_signed'', PBool False), (''initial'', PNone), (''invalid'', PNone),
         (''unit'', PNone), (''scale'', PInt 1), (''offset'', PInt 0),
         (''is_float'', PBool False), (''choices'', choices), (''spn'', PNone)]\<rparr>"

definition mk_message :: "string \<Rightarrow> int \<Rightarrow> entity list \<Rightarrow> dbc_message" where
  "mk_message n frame_id sigs =
     \<lparr>name = n,
      attrs =
        [(''frame_id'', PInt frame_id), (''is_extended_frame'', PBool False),
         (''is_fd'', PBool False), (''length'', PInt 8), (''send_type'', PNone),
         (''cycle_time'', PNone), (''senders'', PList [PStr ''ECU'']),
         (''receivers'', PNone)],
      dbc_signals = sigs\<rparr>"

definition ex_old :: dbc where
  "ex_old =
     \<lparr>messages =
        [mk_message ''M1'' 100
           [mk_signal ''S1'' (PInt 0) (PDict [(PInt 0, PStr ''OFF''), (PInt 1, PStr ''ON'')]),
            mk_signal ''S0'' PNone PNone]],
      version = None\<rparr>"

definition ex_new :: dbc where
  "ex_new =
     \<lparr>messages =
        [mk_message ''M1'' 101
           [mk_signal ''S1'' (PInt 0) (PDict [(PStr ''1'', PStr ''ON''), (PInt 0, PStr ''off'')]),
            mk_signal ''S2'' (PInt 3) PNone],
         mk_message ''M2'' 7 []],
      version = Some ''1.0''\<rparr>"

definition ex_files :: "string \<Rightarrow> dbc option" where
  "ex_files path =
     (if path = ''old/a.dbc'' then Some ex_old
      else if path = ''new/a.dbc'' then Some ex_new
      else if path = ''old/empty.dbc'' then Some \<lparr>messages = [], version = None\<rparr>
      else if path = ''new/empty.dbc'' then Some \<lparr>messages = [], version = Some []\<rparr>
      else if path = ''new/m2.dbc''
        then Some \<lparr>messages = [mk_message ''M2'' 7 []], version = Some ''2.1''\<rparr>
      else if path = ''new/a_m2.dbc''
        then Some \<lparr>messages = messages ex_old @ [mk_message ''M2'' 7 []], version = None\<rparr>
      else None)"

text \<open>The record of the message \<open>M2\<close> of \<open>new/m2.dbc\<close> when it is added or deleted whole.\<close>

definition m2_added :: pyval where
  "m2_added =
     PDict
       [(PStr ''action'', PStr ''added''),
        (PStr ''added'',
         PList
           [PDict [(PStr ''name'', PStr ''frame_id''), (PStr ''old'', PNone),
                   (PStr ''new'', PStr ''0x7'')],
            PDict [(PStr ''name'', PStr ''is_extended_frame''), (PStr ''old'', PNone),
                   (PStr ''new'', PBool False)],
            PDict [(PStr ''name'', PStr ''is_fd''), (PStr ''old'', PNone),
                   (PStr ''new'', PBool False)],
            PDict [(PStr ''name'', PStr ''length''), (PStr ''old'', PNone),
                   (PStr ''new'', PInt 8)],
            PDict [(PStr ''name'', PStr ''senders''), (PStr ''old'', PNone),
                   (PStr ''new'', PStr ''ECU'')]]),
        (PStr ''signals'', PDict [])]"

definition m2_deleted :: pyval where
  "m2_deleted =
     PDict
       [(PStr ''action'', PStr ''deleted''),
        (PStr ''deleted'',
         PList
           [PDict [(PStr ''name'', PStr ''frame_id''), (PStr ''old'', PStr ''0x7''),
                   (PStr ''new'', PNone)],
            PDict [(PStr ''name'', PStr ''is_extended_frame''), (PStr ''old'', PBool False),
                   (PStr ''new'', PNone)],
            PDict [(PStr ''name'', PStr ''is_fd''), (PStr ''old'', PBool False),
                   (PStr ''new'', PNone)],
            PDict [(PStr ''name'', PStr ''length''), (PStr ''old'', PInt 8),
                   (PStr ''new'', PNone)],
            PDict [(PStr ''name'', PStr ''senders''), (PStr ''old'', PStr ''ECU''),
                   (PStr ''new'', PNone)]]),
        (PStr ''signals'', PDict [])]"

text \<open>
  The message \<open>M1\<close> of \<open>old/a.dbc\<close> and its record when it is added or deleted whole:
  one delta for each attribute that is not \<open>None\<close>, for the message and for each of its
  two signals.
\<close>

definition ex_m1 :: dbc_message where
  "ex_m1 =
     mk_message ''M1'' 100
       [mk_signal ''S1'' (PInt 0) (PDict [(PInt 0, PStr ''OFF''), (PInt 1, PStr ''ON'')]),
        mk_signal ''S0'' PNone PNone]"

definition one_sided :: "string \<Rightarrow> string \<times> pyval \<Rightarrow> pyval" where
  "one_sided action = (\<lambda>(p, value).
     if action = ''deleted'' then property_delta p value PNone
     else property_delta p PNone value)"

definition m1_whole :: "string \<Rightarrow> pyval" where
  "m1_whole action =
     PDict
       [(PStr ''action'', PStr action),
        (PStr action,
         PList (map (one_sided action)
           [(''frame_id'', PStr ''0x64''), (''is_extended_frame'', PBool False),
            (''is_fd'', PBool False), (''length'', PInt 8), (''senders'', PStr ''ECU'')])),
        (PStr ''signals'',
         PDict
           [(PStr ''S1'',
             PDict
               [(PStr ''action'', PStr action),
                (PStr action,
                 PList (map (one_sided action)
                   [(''minimum'', PInt 0), (''maximum'', PInt 1), (''start'', PInt 0),
                    (''length'', PInt 1), (''byte_order'', PStr ''little_endian''),
                    (''is_signed'', PBool False), (''scale'', PInt 1), (''offset'', PInt 0),
                    (''is_float'', PBool False),
                    (''choices'', PDict [(PInt 0, PStr ''OFF''), (PInt 1, PStr ''ON'')])]))]),
            (PStr ''S0'',
             PDict
               [(PStr ''action'', PStr action),
                (PStr action,
                 PList (map (one_sided action)
                   [(''maximum'', PInt 1), (''start'', PInt 0), (''length'', PInt 1),
                    (''byte_order'', PStr ''little_endian''), (''is_signed'', PBool False),
                    (''scale'', PInt 1), (''offset'', PInt 0),
                    (''is_float'', PBool False)]))])])]"

text \<open>
  Three choices mappings: one, the same content with the items in another order and a
  key written as a numeric string, and that one with the label of \<open>0\<close> changed.
\<close>

definition choices_on_off :: pyval where
  "choices_on_off = PDict [(PInt 0, PStr ''OFF''), (PInt 1, PStr ''ON'')]"

definition choices_reordered :: pyval where
  "choices_reordered = PDict [(PStr ''1'', PStr ''ON''), (PInt 0, PStr ''OFF'')]"

definition choices_relabelled :: pyval where
  "choices_relabelled = PDict [(PStr ''1'', PStr ''ON''), (PInt 0, PStr ''off'')]"

section \<open>Basic facts\<close>

subsection \<open>Errors and loops\<close>

lemma and_then_Inr_iff: "and_then m f = Inr y \<longleftrightarrow> (\<exists>x. m = Inr x \<and> f x = Inr y)"
  by (cases m) auto

lemma and_then_Inl_iff:
  "and_then m f = Inl e \<longleftrightarrow> m = Inl e \<or> (\<exists>x. m = Inr x \<and> f x = Inl e)"
  by (cases m) auto

lemma and_then_assoc:
  "and_then (and_then m f) g = and_then m (\<lambda>x. and_then (f x) g)"
  by (cases m) auto

lemma and_then_neq:
  "m \<noteq> Inl e \<Longrightarrow> (\<And>x. m = Inr x \<Longrightarrow> f x \<noteq> Inl e) \<Longrightarrow> and_then m f \<noteq> Inl e"
  by (cases m) auto

lemma append_if: "acc @ (if c then xs else []) = (if c then acc @ xs else acc)"
  by simp

lemma concat_map_pair_singleton:
  "concat (map (\<lambda>(x, r). [f x r]) zs) = map (\<lambda>(x, r). f x r) zs"
  by (induction zs) auto

lemma for_each_append:
  "for_each (xs @ ys) s body = and_then (for_each xs s body) (\<lambda>s'. for_each ys s' body)"
  by (induction xs arbitrary: s) (auto split: sum.splits)

lemma for_each_invariant:
  assumes "for_each xs s body = Inr s'" and "P s"
    and "\<And>x s s'. x \<in> set xs \<Longrightarrow> P s \<Longrightarrow> body x s = Inr s' \<Longrightarrow> P s'"
  shows "P s'"
  using assms
proof (induction xs arbitrary: s)
  case Nil
  then show ?case by simp
next
  case (Cons x xs)
  from Cons.prems(1) obtain s1 where s1: "body x s = Inr s1" "for_each xs s1 body = Inr s'"
    by (auto split: sum.splits)
  have "P s1" using Cons.prems(2,3) s1(1) by auto
  then show ?case
    using Cons.IH [OF s1(2)] Cons.prems(3) by auto
qed

lemma for_each_total:
  "(\<And>x s. x \<in> set xs \<Longrightarrow> \<exists>s'. body x s = Inr s') \<Longrightarrow> \<exists>s'. for_each xs s body = Inr s'"
proof (induction xs arbitrary: s)
  case Nil
  then show ?case by simp
next
  case (Cons x xs)
  obtain s1 where "body x s = Inr s1" using Cons.prems [of x s] by auto
  then show ?case using Cons.IH [of s1] Cons.prems by auto
qed

lemma for_each_neq:
  "(\<And>x s. x \<in> set xs \<Longrightarrow> body x s \<noteq> Inl e) \<Longrightarrow> for_each xs s body \<noteq> Inl e"
  by (induction xs arbitrary: s) (auto split: sum.splits)

lemma for_each_collect:
  assumes "\<And>x acc. x \<in> set xs \<Longrightarrow> body x acc = and_then (g x) (\<lambda>r. Inr (acc @ r))"
  shows "for_each xs acc body = and_then (map_err g xs) (\<lambda>rs. Inr (acc @ concat rs))"
  using assms
proof (induction xs arbitrary: acc)
  case Nil
  then show ?case by simp
next
  case (Cons x xs)
  show ?case
  proof (cases "g x")
    case (Inl e)
    then show ?thesis using Cons.prems [of x acc] by simp
  next
    case (Inr r)
    have "for_each xs (acc @ r) body =
            and_then (map_err g xs) (\<lambda>rs. Inr ((acc @ r) @ concat rs))"
      by (rule Cons.IH) (simp add: Cons.prems)
    then show ?thesis
      using Cons.prems [of x acc] Inr by (cases "map_err g xs") auto
  qed
qed

subsection \<open>Dictionaries\<close>

lemma dict_set_fresh: "k \<notin> set (keys d) \<Longrightarrow> dict_set d k v = d @ [(k, v)]"
  by (induction d) (auto simp: keys_def)

lemma dict_set_keys:
  "keys (dict_set d k v) = (if k \<in> set (keys d) then keys d else keys d @ [k])"
  by (induction d) (auto simp: keys_def rev_image_eqI)

lemma dict_set_distinct: "distinct (keys d) \<Longrightarrow> distinct (keys (dict_set d k v))"
  by (simp add: dict_set_keys)

lemma for_each_store:
  assumes "\<And>x d. x \<in> set xs \<Longrightarrow>
      body x d =
        and_then (g x) (\<lambda>r. Inr (case h x r of None \<Rightarrow> d | Some v \<Rightarrow> dict_set d (K x) v))"
    and "distinct (map K xs)" and "\<And>x. x \<in> set xs \<Longrightarrow> K x \<notin> set (keys d0)"
  shows "for_each xs d0 body =
     and_then (map_err g xs) (\<lambda>rs. Inr (d0 @
        concat (map (\<lambda>(x, r). case h x r of None \<Rightarrow> [] | Some v \<Rightarrow> [(K x, v)])
                  (zip xs rs))))"
  using assms
proof (induction xs arbitrary: d0)
  case Nil
  then show ?case by simp
next
  case (Cons x xs)
  show ?case
  proof (cases "g x")
    case (Inl e)
    then show ?thesis using Cons.prems(1) [of x d0] by simp
  next
    case (Inr r)
    define d1 where "d1 = (case h x r of None \<Rightarrow> d0 | Some v \<Rightarrow> dict_set d0 (K x) v)"
    have d1: "d1 = d0 @ (case h x r of None \<Rightarrow> [] | Some v \<Rightarrow> [(K x, v)])"
      using Cons.prems(3) [of x] by (auto simp: d1_def dict_set_fresh split: option.splits)
    have step: "body x d0 = Inr d1"
      using Cons.prems(1) [of x d0] Inr by (simp add: d1_def)
    have fresh: "K y \<notin> set (keys d1)" if "y \<in> set xs" for y
    proof -
      have "K y \<noteq> K x" using Cons.prems(2) that by (auto simp: image_iff)
      moreover have "K y \<notin> set (keys d0)" using Cons.prems(3) that by simp
      ultimately show ?thesis by (auto simp: d1 keys_def split: option.splits)
    qed
    have "for_each xs d1 body =
      and_then (map_err g xs) (\<lambda>rs. Inr (d1 @
        concat (map (\<lambda>(x, r). case h x r of None \<Rightarrow> [] | Some v \<Rightarrow> [(K x, v)])
                  (zip xs rs))))"
      using Cons.prems(1,2) fresh by (intro Cons.IH) auto
    then show ?thesis
      using step Inr by (cases "map_err g xs") (auto simp: d1)
  qed
qed

subsection \<open>Equality is reflexive on well-formed objects\<close>

lemma atom_eq_refl: "hashable k \<Longrightarrow> atom_eq k k"
  by (cases k) (auto simp: atom_eq_def)

lemma py_lookup_member:
  "wf_items e \<Longrightarrow> py_distinct (map fst e) \<Longrightarrow> (k, v) \<in> set e \<Longrightarrow> py_lookup e k = Some v"
proof (induction e)
  case Nil
  then show ?case by simp
next
  case (Cons kv e)
  obtain k' v' where kv: "kv = (k', v')" by (cases kv)
  show ?case
  proof (cases "(k, v) = (k', v')")
    case True
    then show ?thesis using Cons.prems kv by (simp add: atom_eq_refl)
  next
    case False
    then have mem: "(k, v) \<in> set e" using Cons.prems(3) kv by auto
    then have "k \<in> set (map fst e)" by force
    then have "\<not> atom_eq k' k"
      using Cons.prems(2) kv by (auto simp: list_ex_iff)
    then show ?thesis using Cons.IH Cons.prems mem kv by simp
  qed
qed

lemma py_eq_items_sub:
  "\<forall>(k, v) \<in> set d. py_lookup e k = Some v \<and> py_eq v v \<Longrightarrow> py_eq_items d e"
  by (induction d) auto

lemma py_eq_refl_all:
  shows "wf_val v \<Longrightarrow> py_eq v v"
    and "wf_vals xs \<Longrightarrow> py_eq_list xs xs"
    and "wf_items d \<Longrightarrow> \<forall>(k, v) \<in> set d. py_eq v v"
proof (induction v and xs and d rule: wf_val_wf_vals_wf_items.induct)
  case (2 d)
  then have vals: "\<forall>(k, v) \<in> set d. py_eq v v" by simp
  have "py_eq_items d d"
    using 2 vals by (intro py_eq_items_sub) (auto simp: py_lookup_member)
  then show ?case by simp
qed (auto simp: atom_eq_def)

lemma py_eq_refl: "wf_val v \<Longrightarrow> py_eq v v"
  by (rule py_eq_refl_all)

subsection \<open>The converter on well-typed values\<close>

lemma choice_loop:
  assumes "list_all (\<lambda>(k, v). printable v \<and> int_like k) d"
  shows "\<exists>result. for_each d acc (\<lambda>(number, name) result.
           and_then (py_str name) (\<lambda>label.
           and_then (py_int number) (\<lambda>i. Inr (dict_set result i label)))) = Inr result"
proof (rule for_each_total)
  fix x :: "pyval \<times> pyval" and s :: "(int \<times> string) list"
  assume mem: "x \<in> set d"
  obtain number name where x: "x = (number, name)" by (cases x)
  have "printable name" "int_like number"
    using assms mem x by (auto simp: list_all_iff)
  then obtain label i where "py_str name = Inr label" "py_int number = Inr i"
    by (auto simp: printable_def int_like_def split: sum.splits)
  then show "\<exists>s'. (case x of (number, name) \<Rightarrow> \<lambda>result.
                 and_then (py_str name) (\<lambda>label.
                 and_then (py_int number) (\<lambda>i. Inr (dict_set result i label)))) s = Inr s'"
    by (simp add: x)
qed

lemma choice_loop_distinct:
  assumes "for_each d acc (\<lambda>(number, name) result.
             and_then (py_str name) (\<lambda>label.
             and_then (py_int number) (\<lambda>i. Inr (dict_set result i label)))) = Inr result"
    and "distinct (keys acc)"
  shows "distinct (keys result)"
  using assms(1,2)
  by (rule for_each_invariant) (auto simp: and_then_Inr_iff dict_set_distinct)

lemma py_distinct_PInt: "distinct ks \<Longrightarrow> py_distinct (map PInt ks)"
  by (induction ks) (auto simp: list_ex_iff atom_eq_def)

lemma wf_items_choices: "wf_items (map (\<lambda>(k, v). (PInt k, PStr v)) r)"
  by (induction r) auto

lemma distinct_keys_sort:
  fixes r :: "(int \<times> string) list"
  shows "distinct (map fst r) \<Longrightarrow> distinct (map fst (sort r))"
  by (metis distinct_map distinct_sort set_sort)

lemma keys_choices:
  "map fst (map (\<lambda>(k, v). (PInt k, PStr v)) xs) = map PInt (map fst xs)"
  by (induction xs) auto

lemma normal_choices_wf:
  fixes r :: "(int \<times> string) list"
  assumes "distinct (keys r)"
  shows "wf_val (PDict (map (\<lambda>(k, v). (PInt k, PStr v)) (sort r)))"
proof -
  have "py_distinct (map fst (map (\<lambda>(k, v). (PInt k, PStr v)) (sort r)))"
    unfolding keys_choices
    using assms distinct_keys_sort [of r] by (intro py_distinct_PInt) (simp add: keys_def)
  then show ?thesis
    by (simp add: wf_items_choices)
qed

lemma str_items_total: "list_all is_str xs \<Longrightarrow> \<exists>ss. str_items xs = Inr ss"
  by (induction xs) (auto simp: is_str_def split: pyval.splits)

lemma converter_well_typed:
  assumes "well_typed raw ft"
  shows "\<exists>c. converter raw ft = Inr c \<and> py_eq c c"
proof (cases "raw = PNone")
  case True
  then show ?thesis by (simp add: converter_def atom_eq_def)
next
  case nn: False
  consider (hex) "ft = ''hex''" | (str) "ft = ''str''" | (dict) "ft = ''dict''"
    | (list) "ft = ''list''" | (basic) "ft \<notin> {''hex'', ''str'', ''dict'', ''list''}"
    by auto
  then show ?thesis
  proof cases
    case hex
    then show ?thesis using assms nn
      by (auto simp: converter_def well_typed_def py_hex_def atom_eq_def split: option.splits)
  next
    case str
    then show ?thesis using assms nn
      by (auto simp: converter_def well_typed_def printable_def atom_eq_def split: sum.splits)
  next
    case dict
    then obtain d where d: "raw = PDict d" "list_all (\<lambda>(k, v). printable v \<and> int_like k) d"
      using assms nn by (auto simp: well_typed_def split: pyval.splits)
    obtain result where r: "for_each d [] (\<lambda>(number, name) result.
        and_then (py_str name) (\<lambda>label.
        and_then (py_int number) (\<lambda>i. Inr (dict_set result i label)))) = Inr result"
      using choice_loop [OF d(2)] by blast
    have "distinct (keys result)"
      using choice_loop_distinct [OF r] by (simp add: keys_def)
    then have "py_eq (PDict (map (\<lambda>(k, v). (PInt k, PStr v)) (sort result)))
                 (PDict (map (\<lambda>(k, v). (PInt k, PStr v)) (sort result)))"
      by (intro py_eq_refl normal_choices_wf)
    then show ?thesis
      using dict d r by (simp add: converter_def py_items_def)
  next
    case list
    then obtain xs where xs: "py_iter raw = Inr xs" "list_all is_str xs"
      using assms nn by (auto simp: well_typed_def split: sum.splits)
    then obtain ss where "str_items xs = Inr ss" using str_items_total by blast
    then show ?thesis
      using list nn xs by (simp add: converter_def py_join_def atom_eq_def)
  next
    case basic
    then show ?thesis
      using assms nn by (auto simp: converter_def well_typed_def py_eq_refl)
  qed
qed

subsection \<open>The builders and the property differ as lists of results\<close>

lemma compare_properties_eq:
  "compare_properties a b properties =
     and_then (map_err (property_change a b) properties) (\<lambda>rs. Inr (concat rs))"
  unfolding compare_properties_def
  by (subst for_each_collect [where g = "property_change a b"])
     (auto simp: property_change_def and_then_assoc append_if)

lemma build_action_eq:
  "build_action action item properties signals =
     and_then (map_err (inventory_entry action item) properties)
       (\<lambda>rs. Inr (build_change action (PList (concat rs)) signals))"
  unfolding build_action_def
  by (subst for_each_collect [where g = "inventory_entry action item"])
     (auto simp: inventory_entry_def and_then_assoc append_if
        intro!: arg_cong2 [where f = and_then] ext)

lemma message_signals_eq:
  assumes "distinct (keys sigs)"
  shows "message_signals action sigs =
     and_then (map_err (\<lambda>(n, signal). build_action action signal signal_properties PNone) sigs)
       (\<lambda>rs. Inr (map (\<lambda>(x, change). (PStr (fst x), PDict change)) (zip sigs rs)))"
  unfolding message_signals_def
  apply (subst for_each_store
      [where g = "\<lambda>(n, signal). build_action action signal signal_properties PNone"
        and h = "\<lambda>x r. Some (PDict r)" and K = "\<lambda>x. PStr (fst x)"])
  subgoal by (auto split: prod.splits)
  subgoal using assms by (simp add: keys_def distinct_map inj_on_def case_prod_beta comp_def)
  subgoal by (simp add: keys_def)
  subgoal by (simp add: concat_map_pair_singleton)
  done

subsection \<open>The fatal branch\<close>

lemma dict_get_neq_critical: "dict_get d k \<noteq> Inl CriticalError"
  by (induction d) (auto split: if_splits)

lemma getattr_neq_critical: "getattr item p \<noteq> Inl CriticalError"
  by (simp add: getattr_def split: option.splits)

lemma str_items_neq_critical: "str_items xs \<noteq> Inl CriticalError"
  by (induction xs) (auto simp: and_then_Inl_iff split: pyval.splits)

lemma py_int_neq_critical: "py_int v \<noteq> Inl CriticalError"
  by (auto simp: py_int_def int_of_str_def Let_def
      split: pyval.splits option.splits prod.splits)

lemma py_repr_neq_critical:
  shows "py_repr v \<noteq> Inl CriticalError"
    and "py_repr_list xs \<noteq> Inl CriticalError"
    and "py_repr_items d \<noteq> Inl CriticalError"
  by (induction v and xs and d rule: py_repr_py_repr_list_py_repr_items.induct)
     (auto simp: and_then_Inl_iff int_repr_def)

lemma py_str_neq_critical: "py_str v \<noteq> Inl CriticalError"
  using py_repr_neq_critical(1) [of v] by (cases v) (simp_all add: py_str_def)

lemma converter_neq_critical: "converter v ft \<noteq> Inl CriticalError"
  unfolding converter_def
  by (auto simp: and_then_Inl_iff py_hex_def py_items_def py_join_def py_iter_def
        str_items_neq_critical py_int_neq_critical py_str_neq_critical
      intro!: for_each_neq and_then_neq split: option.splits pyval.splits)

lemma build_action_neq_critical:
  "action = ''deleted'' \<or> action = ''added'' \<Longrightarrow>
     build_action action item properties signals \<noteq> Inl CriticalError"
  unfolding build_action_def
  by (intro and_then_neq for_each_neq)
     (auto simp: getattr_neq_critical converter_neq_critical and_then_Inl_iff)

lemma compare_properties_neq_critical:
  "compare_properties a b properties \<noteq> Inl CriticalError"
  unfolding compare_properties_def
  by (intro and_then_neq for_each_neq)
     (auto simp: getattr_neq_critical converter_neq_critical and_then_Inl_iff)

lemma message_signals_neq_critical:
  "action = ''deleted'' \<or> action = ''added'' \<Longrightarrow>
     message_signals action sigs \<noteq> Inl CriticalError"
  unfolding message_signals_def
  by (intro and_then_neq for_each_neq)
     (auto simp: build_action_neq_critical and_then_Inl_iff)

lemma compare_messages_neq_critical:
  "compare_messages a b \<noteq> Inl CriticalError"
  unfolding compare_messages_def
  by (auto simp: compare_properties_neq_critical build_action_neq_critical
        dict_get_neq_critical and_then_Inl_iff
      split: prod.splits intro!: and_then_neq for_each_neq)

lemma dbc_loader_neq_critical: "dbc_loader load_file path \<noteq> Inl CriticalError"
  by (auto simp: dbc_loader_def and_then_Inl_iff split: option.splits)

lemma compare_dbc_neq_critical:
  "compare_dbc load_file a b \<noteq> Inl CriticalError"
  unfolding compare_dbc_def Let_def
  by (auto simp: compare_messages_neq_critical build_action_neq_critical
        dict_get_neq_critical message_signals_neq_critical dbc_loader_neq_critical
        and_then_Inl_iff
      split: prod.splits intro!: and_then_neq for_each_neq)

lemma get_report_neq_critical:
  "get_report load_file a b u \<noteq> Inl CriticalError"
  unfolding get_report_def
  by (auto simp: compare_dbc_neq_critical dict_get_neq_critical and_then_Inl_iff
      split: prod.splits if_splits intro!: and_then_neq for_each_neq)

lemma build_action_unknown:
  assumes "action \<noteq> ''deleted''" "action \<noteq> ''added''" "properties \<noteq> []"
  shows "\<exists>e. build_action action item properties signals = Inl e"
proof -
  obtain p ft rest where "properties = (p, ft) # rest"
    using assms(3) by (cases properties) auto
  then show ?thesis
    using assms(1,2)
    by (cases "getattr item p"; cases "converter (projr (getattr item p)) ft")
       (auto simp: build_action_def)
qed

section \<open>The set reconciler\<close>

lemma compare_dictionaries_sets:
  "compare_dictionaries old new = (a, c, r) \<Longrightarrow>
     set a = set (keys new) - set (keys old) \<and>
     set c = set (keys old) \<inter> set (keys new) \<and>
     set r = set (keys old) - set (keys new)"
  by (auto simp: compare_dictionaries_def Let_def)

lemma compare_dictionaries_sorted:
  "compare_dictionaries old new = (a, c, r) \<Longrightarrow>
     sorted_wrt (<) a \<and> sorted_wrt (<) c \<and> sorted_wrt (<) r"
  by (auto simp: compare_dictionaries_def Let_def)

lemma string_less_lexord:
  "((<) :: string \<Rightarrow> string \<Rightarrow> bool) =
     (\<lambda>a b. (a, b) \<in> lexord {(c, d). (of_char c :: nat) < of_char d})"
  by (intro ext) (simp add: list_less_def less_char_def)

text \<open>
  C1.  For every pair of dictionaries keyed by strings, \<open>compare_dictionaries\<close> returns
  three key sequences: the keys only in \<open>new\<close>, the keys in both, the keys only in
  \<open>old\<close>.  They are pairwise disjoint, their union is the union of the two key sets, and
  each is strictly ascending in the lexicographic order of the character codes (so
  without repetition).  The function is pure: its result is the triple alone and the
  two dictionaries are values that it cannot change.
\<close>

theorem compare_dictionaries_partition:
  fixes old :: "(string \<times> 'a) list" and new :: "(string \<times> 'b) list"
  shows "(case compare_dictionaries old new of (added, common, removed) \<Rightarrow>
     set added = set (keys new) - set (keys old) \<and>
     set common = set (keys old) \<inter> set (keys new) \<and>
     set removed = set (keys old) - set (keys new) \<and>
     set added \<inter> set common = {} \<and>
     set added \<inter> set removed = {} \<and>
     set common \<inter> set removed = {} \<and>
     set added \<union> set common \<union> set removed = set (keys old) \<union> set (keys new) \<and>
     sorted_wrt (\<lambda>a b. (a, b) \<in> lexord {(c, d). (of_char c :: nat) < of_char d}) added \<and>
     sorted_wrt (\<lambda>a b. (a, b) \<in> lexord {(c, d). (of_char c :: nat) < of_char d}) common \<and>
     sorted_wrt (\<lambda>a b. (a, b) \<in> lexord {(c, d). (of_char c :: nat) < of_char d}) removed)"
proof -
  obtain a c r where eq: "compare_dictionaries old new = (a, c, r)"
    by (cases "compare_dictionaries old new") auto
  from compare_dictionaries_sets [OF eq] compare_dictionaries_sorted [OF eq]
  show ?thesis
    unfolding eq string_less_lexord by auto
qed

theorem compare_dictionaries_partition_witness:
  "compare_dictionaries [(''b'', 1::nat), (''a'', 2)]
       [(''c'', True), (''a'', False), (''B'', True)]
     = ([''B'', ''c''], [''a''], [''b'']) \<and>
   sorted_wrt (\<lambda>a b. (a, b) \<in> lexord {(c, d). (of_char c :: nat) < of_char d})
     [''B'', ''c'']"
proof -
  have eq: "compare_dictionaries [(''b'', 1::nat), (''a'', 2)]
              [(''c'', True), (''a'', False), (''B'', True)]
            = ([''B'', ''c''], [''a''], [''b''])"
    by code_simp
  show ?thesis
    using compare_dictionaries_partition
      [of "[(''b'', 1::nat), (''a'', 2)]" "[(''c'', True), (''a'', False), (''B'', True)]"]
    unfolding eq by simp
qed

section \<open>The loops of the differ\<close>

lemma map_err_Inr_iff: "map_err f xs = Inr ys \<longleftrightarrow> list_all2 (\<lambda>x y. f x = Inr y) xs ys"
proof (induction xs arbitrary: ys)
  case Nil
  then show ?case by auto
next
  case (Cons x xs)
  show ?case
    by (cases ys) (auto simp: Cons.IH [symmetric] split: sum.splits)
qed

lemma stored_keys: "set (keys (stored K h xs rs)) \<subseteq> K ` set xs"
  by (auto simp: stored_def keys_def split: option.splits dest: set_zip_leftD)

lemma stored_keyD: "(k, v) \<in> set (stored K h xs rs) \<Longrightarrow> k \<in> K ` set xs"
  using stored_keys [of K h xs rs] by (force simp: keys_def)

lemma stored_distinct:
  "distinct (map K xs) \<Longrightarrow> distinct (keys (stored K h xs rs))"
proof (induction xs arbitrary: rs)
  case Nil
  then show ?case by (simp add: stored_def keys_def)
next
  case (Cons x xs)
  show ?case
  proof (cases rs)
    case Nil
    then show ?thesis by (simp add: stored_def keys_def)
  next
    case (Cons r rs')
    have "stored K h (x # xs) rs =
        (case h x r of None \<Rightarrow> [] | Some v \<Rightarrow> [(K x, v)]) @ stored K h xs rs'"
      by (simp add: stored_def Cons)
    moreover have "K x \<notin> set (keys (stored K h xs rs'))"
      using stored_keys [of K h xs rs'] Cons.prems by auto
    ultimately show ?thesis
      using Cons.IH [of rs'] Cons.prems by (auto simp: keys_def split: option.splits)
  qed
qed

lemma stored_set:
  assumes "list_all2 (\<lambda>x r. g x = Inr r) xs rs"
  shows "set (stored K h xs rs) =
           {(K x, v) | x r v. x \<in> set xs \<and> g x = Inr r \<and> h x r = Some v}"
  using assms
proof (induction xs rs rule: list_all2_induct)
  case Nil
  then show ?case by (simp add: stored_def)
next
  case (Cons x xs r rs)
  have "stored K h (x # xs) (r # rs) =
      (case h x r of None \<Rightarrow> [] | Some v \<Rightarrow> [(K x, v)]) @ stored K h xs rs"
    by (simp add: stored_def)
  then show ?case
    using Cons by (auto split: option.splits)
qed

lemma stored_always:
  "stored K (\<lambda>x r. Some (f x r)) xs rs = map (\<lambda>(x, r). (K x, f x r)) (zip xs rs)"
  by (simp add: stored_def concat_map_pair_singleton)

lemma for_each_stored:
  assumes "\<And>x d. x \<in> set xs \<Longrightarrow>
      body x d =
        and_then (g x) (\<lambda>r. Inr (case h x r of None \<Rightarrow> d | Some v \<Rightarrow> dict_set d (K x) v))"
    and "distinct (map K xs)" and "\<And>x. x \<in> set xs \<Longrightarrow> K x \<notin> set (keys d0)"
  shows "for_each xs d0 body =
           and_then (map_err g xs) (\<lambda>rs. Inr (d0 @ stored K h xs rs))"
  unfolding stored_def by (rule for_each_store) (use assms in auto)

lemma for_each_store_Inr:
  assumes "for_each xs d0 body = Inr d"
    and "\<And>x d. x \<in> set xs \<Longrightarrow>
      body x d =
        and_then (g x) (\<lambda>r. Inr (case h x r of None \<Rightarrow> d | Some v \<Rightarrow> dict_set d (K x) v))"
    and "distinct (map K xs)" and "\<And>x. x \<in> set xs \<Longrightarrow> K x \<notin> set (keys d0)"
  shows "\<exists>rs. list_all2 (\<lambda>x r. g x = Inr r) xs rs \<and> d = d0 @ stored K h xs rs"
proof -
  have "for_each xs d0 body = and_then (map_err g xs) (\<lambda>rs. Inr (d0 @ stored K h xs rs))"
    by (rule for_each_stored) (use assms in auto)
  with assms(1) have "and_then (map_err g xs) (\<lambda>rs. Inr (d0 @ stored K h xs rs)) = Inr d"
    by simp
  then show ?thesis
    by (auto simp: and_then_Inr_iff map_err_Inr_iff)
qed

lemma changed_signal_case:
  "(case changed_signal cl of None \<Rightarrow> d | Some v \<Rightarrow> dict_set d k v) =
     (if length cl > 0
      then dict_set d k (PDict (build_change ''changed'' (PList cl) PNone)) else d)"
  by (simp add: changed_signal_def)

lemma compare_dictionaries_distinct:
  assumes "compare_dictionaries old new = (a, c, r)"
  shows "distinct a" "distinct c" "distinct r"
    "set a \<inter> set c = {}" "set a \<inter> set r = {}" "set c \<inter> set r = {}"
  using compare_dictionaries_sets [OF assms] compare_dictionaries_sorted [OF assms]
  by (auto simp: strict_sorted_iff)

lemma compare_messages_Inr:
  assumes "compare_messages old_message new_message = Inr (changes, signals_changes)"
    and cd: "compare_dictionaries (msg_signals old_message) (msg_signals new_message)
               = (added, same, deleted)"
  shows "compare_properties old_message new_message message_properties = Inr changes \<and>
    (\<exists>rs1 rs2 rs3.
       list_all2 (\<lambda>n r. common_signal (msg_signals old_message) (msg_signals new_message) n = Inr r)
         same rs1 \<and>
       list_all2 (\<lambda>n r. whole_signal ''deleted'' (msg_signals old_message) n = Inr r) deleted rs2 \<and>
       list_all2 (\<lambda>n r. whole_signal ''added'' (msg_signals new_message) n = Inr r) added rs3 \<and>
       signals_changes =
         stored PStr (\<lambda>n. changed_signal) same rs1 @
         stored PStr (\<lambda>n r. Some (PDict r)) deleted rs2 @
         stored PStr (\<lambda>n r. Some (PDict r)) added rs3)"
proof -
  note dis = compare_dictionaries_distinct [OF cd]
  from assms(1) obtain sc1 sc2 where
    props: "compare_properties old_message new_message message_properties = Inr changes"
    and l1: "for_each same [] (\<lambda>n signals_changes.
          and_then (dict_get (msg_signals old_message) n) (\<lambda>old_signal.
          and_then (dict_get (msg_signals new_message) n) (\<lambda>new_signal.
          and_then (compare_properties old_signal new_signal signal_properties)
            (\<lambda>changed_list.
            Inr (if length changed_list > 0
                 then dict_set signals_changes (PStr n)
                        (PDict (build_change ''changed'' (PList changed_list) PNone))
                 else signals_changes))))) = Inr sc1"
    and l2: "for_each deleted sc1 (\<lambda>n signals_changes.
          and_then (dict_get (msg_signals old_message) n) (\<lambda>old_signal.
          and_then (build_action ''deleted'' old_signal signal_properties PNone) (\<lambda>change.
            Inr (dict_set signals_changes (PStr n) (PDict change))))) = Inr sc2"
    and l3: "for_each added sc2 (\<lambda>n signals_changes.
          and_then (dict_get (msg_signals new_message) n) (\<lambda>new_signal.
          and_then (build_action ''added'' new_signal signal_properties PNone) (\<lambda>change.
            Inr (dict_set signals_changes (PStr n) (PDict change))))) = Inr signals_changes"
    unfolding compare_messages_def cd by (auto simp: and_then_Inr_iff)
  have "\<exists>rs1. list_all2 (\<lambda>n r. common_signal (msg_signals old_message) (msg_signals new_message) n = Inr r)
         same rs1 \<and> sc1 = [] @ stored PStr (\<lambda>n. changed_signal) same rs1"
  proof (rule for_each_store_Inr [OF l1])
    show "distinct (map PStr same)" using dis by (simp add: distinct_map inj_on_def)
  qed (simp_all add: common_signal_def changed_signal_case and_then_assoc keys_def)
  then obtain rs1 where
    rs1: "list_all2 (\<lambda>n r. common_signal (msg_signals old_message) (msg_signals new_message) n = Inr r)
         same rs1"
    and sc1: "sc1 = stored PStr (\<lambda>n. changed_signal) same rs1"
    by auto
  have k1: "set (keys sc1) \<subseteq> PStr ` set same"
    using stored_keys [of PStr _ same rs1] by (simp add: sc1)
  have "\<exists>rs2. list_all2 (\<lambda>n r. whole_signal ''deleted'' (msg_signals old_message) n = Inr r) deleted rs2
     \<and> sc2 = sc1 @ stored PStr (\<lambda>n r. Some (PDict r)) deleted rs2"
  proof (rule for_each_store_Inr [OF l2])
    show "distinct (map PStr deleted)" using dis by (simp add: distinct_map inj_on_def)
    show "PStr x \<notin> set (keys sc1)" if "x \<in> set deleted" for x
      using that k1 dis by auto
  qed (simp_all add: whole_signal_def and_then_assoc)
  then obtain rs2 where
    rs2: "list_all2 (\<lambda>n r. whole_signal ''deleted'' (msg_signals old_message) n = Inr r) deleted rs2"
    and sc2: "sc2 = sc1 @ stored PStr (\<lambda>n r. Some (PDict r)) deleted rs2"
    by auto
  have k2: "set (keys sc2) \<subseteq> PStr ` (set same \<union> set deleted)"
    using k1 by (auto simp: sc2 keys_def dest!: stored_keyD)
  have "\<exists>rs3. list_all2 (\<lambda>n r. whole_signal ''added'' (msg_signals new_message) n = Inr r) added rs3
     \<and> signals_changes = sc2 @ stored PStr (\<lambda>n r. Some (PDict r)) added rs3"
  proof (rule for_each_store_Inr [OF l3])
    show "distinct (map PStr added)" using dis by (simp add: distinct_map inj_on_def)
    show "PStr x \<notin> set (keys sc2)" if "x \<in> set added" for x
      using that k2 dis by auto
  qed (simp_all add: whole_signal_def and_then_assoc)
  then obtain rs3 where
    rs3: "list_all2 (\<lambda>n r. whole_signal ''added'' (msg_signals new_message) n = Inr r) added rs3"
    and sc3: "signals_changes = sc2 @ stored PStr (\<lambda>n r. Some (PDict r)) added rs3"
    by auto
  show ?thesis
    using props rs1 rs2 rs3 sc1 sc2 sc3 by auto
qed

lemma changed_message_case:
  "(case changed_message r of None \<Rightarrow> d | Some v \<Rightarrow> dict_set d k v) =
     (case r of (message_changed_list, signals_changed_list) \<Rightarrow>
        if length message_changed_list > 0 \<or> length signals_changed_list > 0
        then dict_set d k (PDict (build_change ''changed'' (PList message_changed_list)
                                    (PDict signals_changed_list)))
        else d)"
  by (simp add: changed_message_def split: prod.splits)

lemma Inr_case_prod: "Inr (case p of (a, b) \<Rightarrow> f a b) = (case p of (a, b) \<Rightarrow> Inr (f a b))"
  by (simp split: prod.splits)

lemma version_entries_eq:
  "(let versions = [];
        versions = (if new_path \<noteq> None
                    then dict_set versions (PStr ''new_version'') (version_value new_version)
                    else versions);
        versions = (if old_path \<noteq> None
                    then dict_set versions (PStr ''old_version'') (version_value old_version)
                    else versions);
        versions = dict_set versions (PStr ''same_version'') (PBool (old_version = new_version))
    in f versions) = f (version_entries old_path new_path old_version new_version)"
  by (simp add: version_entries_def Let_def)

lemma compare_dbc_Inr:
  assumes "compare_dbc load_file old_path new_path = Inr (report, versions)"
  shows "\<exists>old_dbc old_version new_dbc new_version added same deleted rs1 rs2 rs3.
       dbc_loader load_file old_path = Inr (old_dbc, old_version) \<and>
       dbc_loader load_file new_path = Inr (new_dbc, new_version) \<and>
       compare_dictionaries old_dbc new_dbc = (added, same, deleted) \<and>
       list_all2 (\<lambda>n r. common_message old_dbc new_dbc n = Inr r) same rs1 \<and>
       list_all2 (\<lambda>n r. whole_message ''deleted'' old_dbc n = Inr r) deleted rs2 \<and>
       list_all2 (\<lambda>n r. whole_message ''added'' new_dbc n = Inr r) added rs3 \<and>
       report =
         stored PStr (\<lambda>n. changed_message) same rs1 @
         stored PStr (\<lambda>n r. Some (PDict r)) deleted rs2 @
         stored PStr (\<lambda>n r. Some (PDict r)) added rs3 \<and>
       versions = version_entries old_path new_path old_version new_version"
proof -
  from assms obtain old_dbc old_version new_dbc new_version where
    lo: "dbc_loader load_file old_path = Inr (old_dbc, old_version)"
    and ln: "dbc_loader load_file new_path = Inr (new_dbc, new_version)"
    unfolding compare_dbc_def by (auto simp: and_then_Inr_iff)
  obtain added same deleted where
    cd: "compare_dictionaries old_dbc new_dbc = (added, same, deleted)"
    by (cases "compare_dictionaries old_dbc new_dbc") auto
  note dis = compare_dictionaries_distinct [OF cd]
  from assms obtain r1 r2 where
    l1: "for_each same [] (\<lambda>n dbc_report.
          and_then (dict_get old_dbc n) (\<lambda>old_message.
          and_then (dict_get new_dbc n) (\<lambda>new_message.
          and_then (compare_messages old_message new_message)
            (\<lambda>(message_changed_list, signals_changed_list).
            Inr (if length message_changed_list > 0 \<or> length signals_changed_list > 0
                 then dict_set dbc_report (PStr n)
                        (PDict (build_change ''changed'' (PList message_changed_list)
                                  (PDict signals_changed_list)))
                 else dbc_report))))) = Inr r1"
    and l2: "for_each deleted r1 (\<lambda>n dbc_report.
          and_then (dict_get old_dbc n) (\<lambda>old_message.
          and_then (message_signals ''deleted'' (msg_signals old_message)) (\<lambda>sigs.
          and_then (build_action ''deleted'' old_message message_properties (PDict sigs))
            (\<lambda>change. Inr (dict_set dbc_report (PStr n) (PDict change)))))) = Inr r2"
    and l3: "for_each added r2 (\<lambda>n dbc_report.
          and_then (dict_get new_dbc n) (\<lambda>new_message.
          and_then (message_signals ''added'' (msg_signals new_message)) (\<lambda>sigs.
          and_then (build_action ''added'' new_message message_properties (PDict sigs))
            (\<lambda>change. Inr (dict_set dbc_report (PStr n) (PDict change)))))) = Inr report"
    and vs: "versions = version_entries old_path new_path old_version new_version"
    unfolding compare_dbc_def lo ln version_entries_eq
    by (auto simp: and_then_Inr_iff cd)
  have "\<exists>rs1. list_all2 (\<lambda>n r. common_message old_dbc new_dbc n = Inr r) same rs1 \<and>
           r1 = [] @ stored PStr (\<lambda>n. changed_message) same rs1"
  proof (rule for_each_store_Inr [OF l1])
    show "distinct (map PStr same)" using dis by (simp add: distinct_map inj_on_def)
  qed (simp_all add: common_message_def changed_message_case and_then_assoc keys_def
        Inr_case_prod)
  then obtain rs1 where
    rs1: "list_all2 (\<lambda>n r. common_message old_dbc new_dbc n = Inr r) same rs1"
    and r1: "r1 = stored PStr (\<lambda>n. changed_message) same rs1"
    by auto
  have k1: "set (keys r1) \<subseteq> PStr ` set same"
    using stored_keys [of PStr _ same rs1] by (simp add: r1)
  have "\<exists>rs2. list_all2 (\<lambda>n r. whole_message ''deleted'' old_dbc n = Inr r) deleted rs2 \<and>
           r2 = r1 @ stored PStr (\<lambda>n r. Some (PDict r)) deleted rs2"
  proof (rule for_each_store_Inr [OF l2])
    show "distinct (map PStr deleted)" using dis by (simp add: distinct_map inj_on_def)
    show "PStr x \<notin> set (keys r1)" if "x \<in> set deleted" for x
      using that k1 dis by auto
  qed (simp_all add: whole_message_def and_then_assoc)
  then obtain rs2 where
    rs2: "list_all2 (\<lambda>n r. whole_message ''deleted'' old_dbc n = Inr r) deleted rs2"
    and r2: "r2 = r1 @ stored PStr (\<lambda>n r. Some (PDict r)) deleted rs2"
    by auto
  have k2: "set (keys r2) \<subseteq> PStr ` (set same \<union> set deleted)"
    using k1 by (auto simp: r2 keys_def dest!: stored_keyD)
  have "\<exists>rs3. list_all2 (\<lambda>n r. whole_message ''added'' new_dbc n = Inr r) added rs3 \<and>
           report = r2 @ stored PStr (\<lambda>n r. Some (PDict r)) added rs3"
  proof (rule for_each_store_Inr [OF l3])
    show "distinct (map PStr added)" using dis by (simp add: distinct_map inj_on_def)
    show "PStr x \<notin> set (keys r2)" if "x \<in> set added" for x
      using that k2 dis by auto
  qed (simp_all add: whole_message_def and_then_assoc)
  then obtain rs3 where
    rs3: "list_all2 (\<lambda>n r. whole_message ''added'' new_dbc n = Inr r) added rs3"
    and r3: "report = r2 @ stored PStr (\<lambda>n r. Some (PDict r)) added rs3"
    by auto
  show ?thesis
    using lo ln cd rs1 rs2 rs3 r1 r2 r3 vs by auto
qed

lemma changed_file_case:
  "(case changed_file unchanged r of None \<Rightarrow> d | Some v \<Rightarrow> dict_set d k v) =
     (case r of (dbc_report, versions, same_version) \<Rightarrow>
        if length dbc_report > 0 \<or> \<not> py_truth same_version then
          dict_set d k
            (PDict (dict_union (build_change ''changed'' (PDict dbc_report) PNone) versions))
        else if unchanged then
          dict_set d k
            (PDict (dict_union (build_change ''unchanged'' (PDict dbc_report) PNone) versions))
        else d)"
  by (simp add: changed_file_def split: prod.splits)

lemma Inr_if: "(if c then Inr a else Inr b) = Inr (if c then a else b)"
  by simp

lemma get_report_Inr:
  assumes "get_report load_file old_files new_files unchanged = Inr report"
    and cd: "compare_dictionaries old_files new_files = (added, same, deleted)"
  shows "\<exists>rs1 rs2 rs3.
       list_all2 (\<lambda>n r. added_file load_file new_files n = Inr r) added rs1 \<and>
       list_all2 (\<lambda>n r. deleted_file load_file old_files n = Inr r) deleted rs2 \<and>
       list_all2 (\<lambda>n r. common_file load_file old_files new_files n = Inr r) same rs3 \<and>
       report =
         stored PStr (\<lambda>n r. Some r) added rs1 @
         stored PStr (\<lambda>n r. Some r) deleted rs2 @
         stored PStr (\<lambda>n. changed_file unchanged) same rs3"
proof -
  note dis = compare_dictionaries_distinct [OF cd]
  from assms(1) obtain r1 r2 where
    l1: "for_each added [] (\<lambda>file_added compare_report.
          and_then (dict_get new_files file_added) (\<lambda>new_path.
          and_then (compare_dbc load_file None (Some new_path)) (\<lambda>(dbc_report, versions).
            Inr (dict_set compare_report (PStr file_added)
                   (PDict (dict_union (build_change ''added'' (PDict dbc_report) PNone)
                             versions)))))) = Inr r1"
    and l2: "for_each deleted r1 (\<lambda>file_deleted compare_report.
          and_then (dict_get old_files file_deleted) (\<lambda>old_path.
          and_then (compare_dbc load_file (Some old_path) None) (\<lambda>(dbc_report, versions).
            Inr (dict_set compare_report (PStr file_deleted)
                   (PDict (dict_union (build_change ''deleted'' (PDict dbc_report) PNone)
                             versions)))))) = Inr r2"
    and l3: "for_each same r2 (\<lambda>file_same compare_report.
          and_then (dict_get old_files file_same) (\<lambda>old_path.
          and_then (dict_get new_files file_same) (\<lambda>new_path.
          and_then (compare_dbc load_file (Some old_path) (Some new_path))
            (\<lambda>(dbc_report, versions).
          and_then (dict_get versions (PStr ''same_version'')) (\<lambda>same_version.
            if length dbc_report > 0 \<or> \<not> py_truth same_version then
              Inr (dict_set compare_report (PStr file_same)
                     (PDict (dict_union (build_change ''changed'' (PDict dbc_report) PNone)
                               versions)))
            else if unchanged then
              Inr (dict_set compare_report (PStr file_same)
                     (PDict (dict_union (build_change ''unchanged'' (PDict dbc_report) PNone)
                               versions)))
            else Inr compare_report))))) = Inr report"
    unfolding get_report_def cd by (auto simp: and_then_Inr_iff)
  have "\<exists>rs1. list_all2 (\<lambda>n r. added_file load_file new_files n = Inr r) added rs1 \<and>
           r1 = [] @ stored PStr (\<lambda>n r. Some r) added rs1"
  proof (rule for_each_store_Inr [OF l1])
    show "distinct (map PStr added)" using dis by (simp add: distinct_map inj_on_def)
  qed (simp_all add: added_file_def and_then_assoc keys_def case_prod_unfold)
  then obtain rs1 where
    rs1: "list_all2 (\<lambda>n r. added_file load_file new_files n = Inr r) added rs1"
    and r1: "r1 = stored PStr (\<lambda>n r. Some r) added rs1"
    by auto
  have k1: "set (keys r1) \<subseteq> PStr ` set added"
    using stored_keys [of PStr _ added rs1] by (simp add: r1)
  have "\<exists>rs2. list_all2 (\<lambda>n r. deleted_file load_file old_files n = Inr r) deleted rs2 \<and>
           r2 = r1 @ stored PStr (\<lambda>n r. Some r) deleted rs2"
  proof (rule for_each_store_Inr [OF l2])
    show "distinct (map PStr deleted)" using dis by (simp add: distinct_map inj_on_def)
    show "PStr x \<notin> set (keys r1)" if "x \<in> set deleted" for x
      using that k1 dis by auto
  qed (simp_all add: deleted_file_def and_then_assoc case_prod_unfold)
  then obtain rs2 where
    rs2: "list_all2 (\<lambda>n r. deleted_file load_file old_files n = Inr r) deleted rs2"
    and r2: "r2 = r1 @ stored PStr (\<lambda>n r. Some r) deleted rs2"
    by auto
  have k2: "set (keys r2) \<subseteq> PStr ` (set added \<union> set deleted)"
    using k1 by (auto simp: r2 keys_def dest!: stored_keyD)
  have "\<exists>rs3. list_all2 (\<lambda>n r. common_file load_file old_files new_files n = Inr r) same rs3 \<and>
           report = r2 @ stored PStr (\<lambda>n. changed_file unchanged) same rs3"
  proof (rule for_each_store_Inr [OF l3])
    show "distinct (map PStr same)" using dis by (simp add: distinct_map inj_on_def)
    show "PStr x \<notin> set (keys r2)" if "x \<in> set same" for x
      using that k2 dis by auto
  qed (simp_all add: common_file_def changed_file_case and_then_assoc case_prod_unfold Inr_if cong: if_cong)
  then obtain rs3 where
    rs3: "list_all2 (\<lambda>n r. common_file load_file old_files new_files n = Inr r) same rs3"
    and r3: "report = r2 @ stored PStr (\<lambda>n. changed_file unchanged) same rs3"
    by auto
  show ?thesis
    using rs1 rs2 rs3 r1 r2 r3 by auto
qed

subsection \<open>Records and lookups\<close>

lemma build_change_2:
  "action \<noteq> ''action'' \<Longrightarrow>
     build_change action change PNone = [(PStr ''action'', PStr action), (PStr action, change)]"
  by (simp add: build_change_def dict_of_def)

lemma build_change_3:
  "signals \<noteq> PNone \<Longrightarrow> action \<noteq> ''action'' \<Longrightarrow> action \<noteq> ''signals'' \<Longrightarrow>
     build_change action change signals =
       [(PStr ''action'', PStr action), (PStr action, change), (PStr ''signals'', signals)]"
  by (simp add: build_change_def dict_of_def)

lemma dict_get_map_of:
  "dict_get d k = (case map_of d k of None \<Rightarrow> Inl KeyError | Some v \<Rightarrow> Inr v)"
  by (induction d) auto

lemma dict_get_Inr_mem: "dict_get d k = Inr v \<Longrightarrow> (k, v) \<in> set d"
  by (auto simp: dict_get_map_of split: option.splits dest: map_of_SomeD)

lemma dict_get_mem_Inr: "distinct (keys d) \<Longrightarrow> (k, v) \<in> set d \<Longrightarrow> dict_get d k = Inr v"
  by (simp add: dict_get_map_of keys_def)

lemma dict_get_keys: "k \<in> set (keys d) \<Longrightarrow> \<exists>v. dict_get d k = Inr v"
  by (cases "map_of d k") (auto simp: dict_get_map_of keys_def map_of_eq_None_iff)

lemma dict_get_Inl: "dict_get d k = Inl e \<Longrightarrow> k \<notin> set (keys d) \<and> e = KeyError"
  by (auto simp: dict_get_map_of keys_def map_of_eq_None_iff split: option.splits)

lemma set_dict_set: "set (dict_set d k v) \<subseteq> insert (k, v) (set d)"
  by (induction d) (auto split: if_splits)

lemma stored_memD:
  "(k, v) \<in> set (stored K h xs rs) \<Longrightarrow>
     \<exists>x r. (x, r) \<in> set (zip xs rs) \<and> k = K x \<and> h x r = Some v"
  by (fastforce simp: stored_def split: option.splits)

lemma list_all2_zipD:
  "list_all2 P xs ys \<Longrightarrow> (x, y) \<in> set (zip xs ys) \<Longrightarrow> P x y"
  by (auto simp: list_all2_iff)

subsection \<open>Looking a name up in a report\<close>

lemma list_all2_result:
  "list_all2 (\<lambda>x r. g x = Inr r) xs rs \<Longrightarrow> x \<in> set xs \<Longrightarrow> \<exists>r. g x = Inr r"
  by (induction xs rs rule: list_all2_induct) auto

lemma stored_lookup_Some:
  assumes "list_all2 (\<lambda>x r. g x = Inr r) xs rs" and "x \<in> set xs"
    and "g x = Inr r" and "h x r = Some v"
  shows "(K x, v) \<in> set (stored K h xs rs)"
proof -
  have "set (stored K h xs rs) =
          {(K x, v) | x r v. x \<in> set xs \<and> g x = Inr r \<and> h x r = Some v}"
    by (rule stored_set [OF assms(1)])
  moreover have "(K x, v) \<in> {(K x, v) | x r v. x \<in> set xs \<and> g x = Inr r \<and> h x r = Some v}"
    using assms(2-4) by blast
  ultimately show ?thesis by simp
qed

lemma stored_lookup_None:
  assumes "list_all2 (\<lambda>x r. g x = Inr r) xs rs" and "inj_on K (set xs)" and "x \<in> set xs"
    and "g x = Inr r" and "h x r = None"
  shows "K x \<notin> set (keys (stored K h xs rs))"
proof
  assume "K x \<in> set (keys (stored K h xs rs))"
  then obtain v where v: "(K x, v) \<in> set (stored K h xs rs)"
    by (auto simp: keys_def)
  from stored_memD [OF v] obtain y r' where
    zip: "(y, r') \<in> set (zip xs rs)" and y': "K x = K y" "h y r' = Some v"
    by blast
  have y: "y \<in> set xs" "K y = K x" "g y = Inr r'" "h y r' = Some v"
    using zip y' list_all2_zipD [OF assms(1) zip] by (auto dest: set_zip_leftD)
  then have "y = x" using assms(2,3) by (auto dest: inj_onD)
  then show False
    using y assms(4,5) by simp
qed

lemma three_part_keys:
  assumes "report = stored PStr h1 xs1 rs1 @ stored PStr h2 xs2 rs2 @ stored PStr h3 xs3 rs3"
    and "distinct xs1" "distinct xs2" "distinct xs3"
    and "set xs1 \<inter> set xs2 = {}" "set xs1 \<inter> set xs3 = {}" "set xs2 \<inter> set xs3 = {}"
  shows "distinct (keys report)"
    and "set (keys report) \<subseteq> PStr ` (set xs1 \<union> set xs2 \<union> set xs3)"
proof -
  let ?A = "stored PStr h1 xs1 rs1" and ?B = "stored PStr h2 xs2 rs2"
    and ?C = "stored PStr h3 xs3 rs3"
  have d: "distinct (keys ?A)" "distinct (keys ?B)" "distinct (keys ?C)"
    using assms(2-4) by (simp_all add: stored_distinct distinct_map inj_on_def)
  have k: "set (keys ?A) \<subseteq> PStr ` set xs1" "set (keys ?B) \<subseteq> PStr ` set xs2"
    "set (keys ?C) \<subseteq> PStr ` set xs3"
    by (rule stored_keys)+
  have ks: "keys report = keys ?A @ keys ?B @ keys ?C"
    by (simp add: assms(1) keys_def)
  have ab: "set (keys ?A) \<inter> set (keys ?B) = {}"
  proof (rule ccontr)
    assume "set (keys ?A) \<inter> set (keys ?B) \<noteq> {}"
    then obtain x where "x \<in> set (keys ?A)" "x \<in> set (keys ?B)" by blast
    then obtain a b where "x = PStr a" "a \<in> set xs1" "x = PStr b" "b \<in> set xs2"
      using k(1,2) by blast
    then show False using assms(5) by auto
  qed
  have ac: "set (keys ?A) \<inter> set (keys ?C) = {}"
  proof (rule ccontr)
    assume "set (keys ?A) \<inter> set (keys ?C) \<noteq> {}"
    then obtain x where "x \<in> set (keys ?A)" "x \<in> set (keys ?C)" by blast
    then obtain a b where "x = PStr a" "a \<in> set xs1" "x = PStr b" "b \<in> set xs3"
      using k(1,3) by blast
    then show False using assms(6) by auto
  qed
  have bc: "set (keys ?B) \<inter> set (keys ?C) = {}"
  proof (rule ccontr)
    assume "set (keys ?B) \<inter> set (keys ?C) \<noteq> {}"
    then obtain x where "x \<in> set (keys ?B)" "x \<in> set (keys ?C)" by blast
    then obtain a b where "x = PStr a" "a \<in> set xs2" "x = PStr b" "b \<in> set xs3"
      using k(2,3) by blast
    then show False using assms(7) by auto
  qed
  show "distinct (keys report)"
    unfolding ks using d ab ac bc by (simp add: Int_Un_distrib)
  show "set (keys report) \<subseteq> PStr ` (set xs1 \<union> set xs2 \<union> set xs3)"
    unfolding ks using k by auto
qed

section \<open>The shape of change records\<close>

lemma is_delta_property_delta: "is_delta (property_delta p old new)"
  by (simp add: is_delta_def property_delta_def)

lemma property_change_deltas:
  "property_change a b x = Inr r \<Longrightarrow> list_all is_delta r"
  by (cases x)
     (auto simp: property_change_def and_then_Inr_iff is_delta_property_delta split: if_splits)

lemma inventory_entry_deltas:
  "inventory_entry action item x = Inr r \<Longrightarrow> list_all is_delta r"
  by (cases x)
     (auto simp: inventory_entry_def and_then_Inr_iff is_delta_property_delta split: if_splits)

lemma list_all_concat:
  "list_all2 (\<lambda>x r. f x = Inr r) xs rs \<Longrightarrow> (\<And>x r. f x = Inr r \<Longrightarrow> list_all P r) \<Longrightarrow>
     list_all P (concat rs)"
  by (induction xs rs rule: list_all2_induct) auto

lemma compare_properties_deltas:
  "compare_properties a b props = Inr changes \<Longrightarrow> list_all is_delta changes"
  by (auto simp: compare_properties_eq and_then_Inr_iff map_err_Inr_iff
      intro: list_all_concat property_change_deltas)

lemma build_action_Inr:
  assumes "build_action action item properties signals = Inr change"
  shows "\<exists>payload. list_all is_delta payload \<and>
        change = build_change action (PList payload) signals"
proof -
  from assms obtain rs where
    rs: "list_all2 (\<lambda>x r. inventory_entry action item x = Inr r) properties rs"
    and c: "change = build_change action (PList (concat rs)) signals"
    by (auto simp: build_action_eq and_then_Inr_iff map_err_Inr_iff)
  have "list_all is_delta (concat rs)"
    using rs by (rule list_all_concat) (rule inventory_entry_deltas)
  then show ?thesis using c by auto
qed

lemma dict_union_fresh:
  "distinct (keys e) \<Longrightarrow> set (keys e) \<inter> set (keys d) = {} \<Longrightarrow> dict_union d e = d @ e"
proof (induction e arbitrary: d)
  case Nil
  then show ?case by (simp add: dict_union_def)
next
  case (Cons kv e)
  obtain k v where kv: "kv = (k, v)" by (cases kv)
  have "dict_union d (kv # e) = dict_union (dict_set d k v) e"
    by (simp add: dict_union_def kv)
  also have "dict_set d k v = d @ [(k, v)]"
    using Cons.prems kv by (intro dict_set_fresh) (auto simp: keys_def)
  also have "dict_union (d @ [(k, v)]) e = (d @ [(k, v)]) @ e"
    using Cons.prems kv by (intro Cons.IH) (auto simp: keys_def)
  finally show ?case by (simp add: kv)
qed

lemma signal_record_build_change:
  assumes "list_all is_delta cl" and "a \<in> set actions" and "a \<noteq> ''action''"
  shows "signal_record actions (PDict (build_change a (PList cl) PNone))"
  using assms
  by (simp add: signal_record_def action_payload_def subscript_def build_change_2 delta_list_def)

lemma message_record_build_change:
  assumes "list_all is_delta cl" and "a \<in> set actions" and "a \<noteq> ''action''"
    and "a \<noteq> ''signals''" and "named_records (signal_record actions) sigs"
  shows "message_record actions (PDict (build_change a (PList cl) sigs))"
proof -
  have "sigs \<noteq> PNone" using assms(5) by (auto simp: named_records_def)
  then show ?thesis
    using assms
    by (simp add: message_record_def action_payload_def subscript_def build_change_3
        delta_list_def)
qed

lemma version_entries_keys:
  "distinct (keys (version_entries op np ov nv)) \<and>
   set (keys (version_entries op np ov nv))
     \<subseteq> {PStr ''new_version'', PStr ''old_version'', PStr ''same_version''}"
  by (auto simp: version_entries_def keys_def)

lemma file_record_build_change:
  assumes "named_records (message_record actions) msgs" and "a \<in> set actions"
    and "a \<notin> {''action'', ''new_version'', ''old_version'', ''same_version''}"
  shows "file_record actions
           (PDict (dict_union (build_change a msgs PNone) (version_entries op np ov nv)))"
proof -
  have "dict_union (build_change a msgs PNone) (version_entries op np ov nv) =
          build_change a msgs PNone @ version_entries op np ov nv"
    using assms(3) version_entries_keys [of op np ov nv]
    by (intro dict_union_fresh) (auto simp: build_change_2 keys_def)
  then show ?thesis
    using assms
    by (auto simp: file_record_def action_payload_def subscript_def build_change_2)
qed

lemma named_records_append:
  "named_records ok (PDict (d @ e)) \<longleftrightarrow> named_records ok (PDict d) \<and> named_records ok (PDict e)"
  by (auto simp: named_records_def)

lemma named_records_stored:
  assumes "list_all2 (\<lambda>x r. g x = Inr r) xs rs"
    and "\<And>x r v. x \<in> set xs \<Longrightarrow> g x = Inr r \<Longrightarrow> h x r = Some v \<Longrightarrow> ok v"
  shows "named_records ok (PDict (stored PStr h xs rs))"
  unfolding named_records_def
  using stored_set [OF assms(1), of PStr h] assms(2)
  by (auto simp: list_all_iff is_str_def)

lemma named_records_dict_set:
  "named_records ok (PDict d) \<Longrightarrow> ok v \<Longrightarrow> named_records ok (PDict (dict_set d (PStr n) v))"
  using set_dict_set [of d "PStr n" v]
  by (auto simp: named_records_def list_all_iff is_str_def)

lemma whole_signal_record:
  assumes "whole_signal a sigs n = Inr r" and "a \<in> set actions" and "a \<noteq> ''action''"
  shows "signal_record actions (PDict r)"
  using assms
  by (auto simp: whole_signal_def and_then_Inr_iff dest!: build_action_Inr
      intro: signal_record_build_change)

lemma compare_messages_records:
  assumes "compare_messages old_message new_message = Inr (changes, signals_changes)"
    and "{''changed'', ''deleted'', ''added''} \<subseteq> set actions"
  shows "list_all is_delta changes \<and>
         named_records (signal_record actions) (PDict signals_changes)"
proof -
  obtain added same deleted where
    cd: "compare_dictionaries (msg_signals old_message) (msg_signals new_message)
           = (added, same, deleted)"
    by (cases "compare_dictionaries (msg_signals old_message) (msg_signals new_message)") auto
  from compare_messages_Inr [OF assms(1) cd] obtain rs1 rs2 rs3 where
    props: "compare_properties old_message new_message message_properties = Inr changes"
    and rs1: "list_all2 (\<lambda>n r. common_signal (msg_signals old_message)
                (msg_signals new_message) n = Inr r) same rs1"
    and rs2: "list_all2 (\<lambda>n r. whole_signal ''deleted'' (msg_signals old_message) n = Inr r)
                deleted rs2"
    and rs3: "list_all2 (\<lambda>n r. whole_signal ''added'' (msg_signals new_message) n = Inr r)
                added rs3"
    and sc: "signals_changes =
         stored PStr (\<lambda>n. changed_signal) same rs1 @
         stored PStr (\<lambda>n r. Some (PDict r)) deleted rs2 @
         stored PStr (\<lambda>n r. Some (PDict r)) added rs3"
    by blast
  have 1: "named_records (signal_record actions) (PDict (stored PStr (\<lambda>n. changed_signal) same rs1))"
    using rs1
  proof (rule named_records_stored)
    fix n r v
    assume "common_signal (msg_signals old_message) (msg_signals new_message) n = Inr r"
      and "changed_signal r = Some v"
    then show "signal_record actions v"
      using assms(2)
      by (auto simp: common_signal_def and_then_Inr_iff changed_signal_def
          split: if_splits dest!: compare_properties_deltas intro!: signal_record_build_change)
  qed
  have 2: "named_records (signal_record actions)
             (PDict (stored PStr (\<lambda>n r. Some (PDict r)) deleted rs2))"
    using rs2 by (rule named_records_stored) (use assms(2) in \<open>auto intro: whole_signal_record\<close>)
  have 3: "named_records (signal_record actions)
             (PDict (stored PStr (\<lambda>n r. Some (PDict r)) added rs3))"
    using rs3 by (rule named_records_stored) (use assms(2) in \<open>auto intro: whole_signal_record\<close>)
  show ?thesis
    using props 1 2 3 by (auto simp: sc named_records_append dest: compare_properties_deltas)
qed

lemma message_signals_records:
  assumes "message_signals a sigs = Inr d" and "a \<in> set actions" and "a \<noteq> ''action''"
  shows "named_records (signal_record actions) (PDict d)"
  using assms(1) unfolding message_signals_def
proof (rule for_each_invariant)
  show "named_records (signal_record actions) (PDict [])"
    by (simp add: named_records_def)
next
  fix x s s'
  assume "named_records (signal_record actions) (PDict s)"
    and "(case x of (n, signal) \<Rightarrow> \<lambda>signals_changes.
            and_then (build_action a signal signal_properties PNone) (\<lambda>change.
              Inr (dict_set signals_changes (PStr n) (PDict change)))) s = Inr s'"
  then show "named_records (signal_record actions) (PDict s')"
    using assms(2,3)
    by (cases x)
       (auto simp: and_then_Inr_iff dest!: build_action_Inr
          intro!: named_records_dict_set signal_record_build_change)
qed

lemma whole_message_record:
  assumes "whole_message a dbc n = Inr r" and "a \<in> set actions"
    and "a \<noteq> ''action''" and "a \<noteq> ''signals''"
  shows "message_record actions (PDict r)"
  using assms
  by (auto simp: whole_message_def and_then_Inr_iff dest!: build_action_Inr
      intro!: message_record_build_change message_signals_records)

lemma compare_dbc_records:
  assumes "compare_dbc load_file old_path new_path = Inr (report, versions)"
    and "{''changed'', ''deleted'', ''added''} \<subseteq> set actions"
  shows "named_records (message_record actions) (PDict report)"
proof -
  from compare_dbc_Inr [OF assms(1)]
  obtain old_dbc new_dbc added same deleted rs1 rs2 rs3 where
    rs1: "list_all2 (\<lambda>n r. common_message old_dbc new_dbc n = Inr r) same rs1"
    and rs2: "list_all2 (\<lambda>n r. whole_message ''deleted'' old_dbc n = Inr r) deleted rs2"
    and rs3: "list_all2 (\<lambda>n r. whole_message ''added'' new_dbc n = Inr r) added rs3"
    and rp: "report =
         stored PStr (\<lambda>n. changed_message) same rs1 @
         stored PStr (\<lambda>n r. Some (PDict r)) deleted rs2 @
         stored PStr (\<lambda>n r. Some (PDict r)) added rs3"
    by blast
  have 1: "named_records (message_record actions)
             (PDict (stored PStr (\<lambda>n. changed_message) same rs1))"
    using rs1
  proof (rule named_records_stored)
    fix n r v
    assume "common_message old_dbc new_dbc n = Inr r" and "changed_message r = Some v"
    then show "message_record actions v"
      using assms(2)
      by (cases r)
         (auto simp: common_message_def and_then_Inr_iff changed_message_def
            split: if_splits dest!: compare_messages_records [where actions = actions]
            intro!: message_record_build_change)
  qed
  have 2: "named_records (message_record actions)
             (PDict (stored PStr (\<lambda>n r. Some (PDict r)) deleted rs2))"
    using rs2 by (rule named_records_stored) (use assms(2) in \<open>auto intro: whole_message_record\<close>)
  have 3: "named_records (message_record actions)
             (PDict (stored PStr (\<lambda>n r. Some (PDict r)) added rs3))"
    using rs3 by (rule named_records_stored) (use assms(2) in \<open>auto intro: whole_message_record\<close>)
  show ?thesis
    using 1 2 3 by (auto simp: rp named_records_append)
qed

lemma compare_dbc_versions:
  "compare_dbc load_file old_path new_path = Inr (report, versions) \<Longrightarrow>
     \<exists>ov nv. versions = version_entries old_path new_path ov nv"
  by (drule compare_dbc_Inr) blast

lemma file_record_wrap:
  assumes "compare_dbc load_file old_path new_path = Inr (dbc_report, versions)"
    and "{''changed'', ''deleted'', ''added''} \<subseteq> set actions"
    and "a \<in> set actions"
    and "a \<notin> {''action'', ''new_version'', ''old_version'', ''same_version''}"
  shows "file_record actions
           (PDict (dict_union (build_change a (PDict dbc_report) PNone) versions))"
proof -
  obtain ov nv where "versions = version_entries old_path new_path ov nv"
    using compare_dbc_versions [OF assms(1)] by blast
  then show ?thesis
    using compare_dbc_records [OF assms(1,2)] assms(3,4)
    by (auto intro!: file_record_build_change)
qed

lemma get_report_records:
  assumes "get_report load_file old_files new_files unchanged = Inr report"
    and "{''changed'', ''deleted'', ''added'', ''unchanged''} \<subseteq> set actions"
  shows "named_records (file_record actions) (PDict report)"
proof -
  obtain added same deleted where
    cd: "compare_dictionaries old_files new_files = (added, same, deleted)"
    by (cases "compare_dictionaries old_files new_files") auto
  from get_report_Inr [OF assms(1) cd] obtain rs1 rs2 rs3 where
    rs1: "list_all2 (\<lambda>n r. added_file load_file new_files n = Inr r) added rs1"
    and rs2: "list_all2 (\<lambda>n r. deleted_file load_file old_files n = Inr r) deleted rs2"
    and rs3: "list_all2 (\<lambda>n r. common_file load_file old_files new_files n = Inr r) same rs3"
    and rp: "report =
         stored PStr (\<lambda>n r. Some r) added rs1 @
         stored PStr (\<lambda>n r. Some r) deleted rs2 @
         stored PStr (\<lambda>n. changed_file unchanged) same rs3"
    by blast
  have sub: "{''changed'', ''deleted'', ''added''} \<subseteq> set actions"
    using assms(2) by auto
  have 1: "named_records (file_record actions) (PDict (stored PStr (\<lambda>n r. Some r) added rs1))"
    using rs1
  proof (rule named_records_stored)
    fix n r v
    assume "added_file load_file new_files n = Inr r" and "Some r = Some v"
    then show "file_record actions v"
      using assms(2)
      by (auto simp: added_file_def and_then_Inr_iff intro!: file_record_wrap [OF _ sub])
  qed
  have 2: "named_records (file_record actions) (PDict (stored PStr (\<lambda>n r. Some r) deleted rs2))"
    using rs2
  proof (rule named_records_stored)
    fix n r v
    assume "deleted_file load_file old_files n = Inr r" and "Some r = Some v"
    then show "file_record actions v"
      using assms(2)
      by (auto simp: deleted_file_def and_then_Inr_iff intro!: file_record_wrap [OF _ sub])
  qed
  have 3: "named_records (file_record actions)
             (PDict (stored PStr (\<lambda>n. changed_file unchanged) same rs3))"
    using rs3
  proof (rule named_records_stored)
    fix n r v
    assume "common_file load_file old_files new_files n = Inr r"
      and "changed_file unchanged r = Some v"
    then show "file_record actions v"
      using assms(2)
      by (auto simp: common_file_def changed_file_def and_then_Inr_iff
          split: if_splits intro!: file_record_wrap [OF _ sub])
  qed
  show ?thesis
    using 1 2 3 by (auto simp: rp named_records_append)
qed

section \<open>Whole entities\<close>

lemma converter_None_iff:
  "converter raw ft = Inr value \<Longrightarrow> value = PNone \<longleftrightarrow> raw = PNone"
  by (auto simp: converter_def and_then_Inr_iff split: if_splits)

lemma inventory_entry_Inr:
  assumes "inventory_entry action item (p, ft) = Inr r"
    and "action = ''deleted'' \<or> action = ''added''"
  shows "\<exists>raw value. getattr item p = Inr raw \<and> converter raw ft = Inr value \<and>
           r = (if raw = PNone then []
                else [if action = ''deleted'' then property_delta p value PNone
                      else property_delta p PNone value])"
  using assms
  by (auto simp: inventory_entry_def and_then_Inr_iff dest: converter_None_iff
      split: if_splits)

lemma inventory_entries:
  assumes "list_all2 (\<lambda>x r. inventory_entry action item x = Inr r) properties rs"
    and "action = ''deleted'' \<or> action = ''added''"
  shows "inventory (action = ''deleted'') item properties (concat rs)"
  using assms(1)
proof (induction properties rs rule: list_all2_induct)
  case Nil
  then show ?case by (simp add: inventory_def)
next
  case (Cons x xs r rs)
  obtain p ft where x: "x = (p, ft)" by (cases x)
  from inventory_entry_Inr [OF Cons.hyps(1) [unfolded x] assms(2)]
  obtain raw "value" where
    g: "getattr item p = Inr raw" and c: "converter raw ft = Inr value"
    and r: "r = (if raw = PNone then []
                else [if action = ''deleted'' then property_delta p value PNone
                      else property_delta p PNone value])"
    by blast
  show ?case
    using Cons.IH g c r
    by (auto simp: inventory_def x)
qed

lemma build_action_inventory:
  assumes "build_action action item properties signals = Inr change"
    and "action = ''deleted'' \<or> action = ''added''"
  shows "\<exists>payload. inventory (action = ''deleted'') item properties payload \<and>
        change = build_change action (PList payload) signals"
proof -
  from assms obtain rs where
    rs: "list_all2 (\<lambda>x r. inventory_entry action item x = Inr r) properties rs"
    and c: "change = build_change action (PList (concat rs)) signals"
    by (auto simp: build_action_eq and_then_Inr_iff map_err_Inr_iff)
  show ?thesis
    using inventory_entries [OF rs assms(2)] c by blast
qed

lemma fold_dict_set_distinct:
  "distinct (keys d0) \<Longrightarrow> distinct (keys (fold (\<lambda>x d. dict_set d (k x) (f x)) xs d0))"
  by (induction xs arbitrary: d0) (auto simp: dict_set_distinct)

lemma fold_dict_set_set:
  "set (fold (\<lambda>x d. dict_set d (k x) (f x)) xs d0) \<subseteq> set d0 \<union> (\<lambda>x. (k x, f x)) ` set xs"
proof (induction xs arbitrary: d0)
  case Nil
  then show ?case by simp
next
  case (Cons x xs)
  show ?case
    using Cons.IH [of "dict_set d0 (k x) (f x)"] set_dict_set [of d0 "k x" "f x"]
    by auto
qed

lemma load_message_signals:
  "distinct (keys (msg_signals (load_message dm)))"
  "set (msg_signals (load_message dm)) \<subseteq> (\<lambda>s. (name s, s)) ` set (dbc_signals dm)"
  using fold_dict_set_distinct [of "[]" name "\<lambda>s. s" "dbc_signals dm"]
    fold_dict_set_set [of name "\<lambda>s. s" "dbc_signals dm" "[]"]
  by (auto simp: load_message_def keys_def)

lemma dbc_loader_Some:
  assumes "dbc_loader load_file (Some path) = Inr (catalog, v)"
  shows "\<exists>dbc. load_file path = Some dbc \<and> distinct (keys catalog) \<and>
     set catalog \<subseteq> (\<lambda>dm. (name dm, load_message dm)) ` set (messages dbc)"
proof -
  from assms obtain dbc where l: "load_file path = Some dbc"
    and c: "catalog = fold (\<lambda>dbc_message messages.
                         dict_set messages (name dbc_message) (load_message dbc_message))
                   (messages dbc) []"
    by (auto simp: dbc_loader_def and_then_Inr_iff split: option.splits)
  show ?thesis
    using l fold_dict_set_distinct [of "[]" name load_message "messages dbc"]
      fold_dict_set_set [of name load_message "messages dbc" "[]"]
    by (auto simp: c keys_def)
qed

lemma dbc_loader_None: "dbc_loader load_file None = Inr ([], None)"
  by (simp add: dbc_loader_def)

lemma catalog_signals_distinct:
  assumes "dbc_loader load_file path = Inr (catalog, v)" and "dict_get catalog n = Inr m"
  shows "distinct (keys (msg_signals m))"
proof (cases path)
  case None
  then show ?thesis using assms by (simp add: dbc_loader_None)
next
  case (Some p)
  then have "dbc_loader load_file (Some p) = Inr (catalog, v)"
    using assms(1) by simp
  from dbc_loader_Some [OF this]
  obtain dbc :: dbc
    where "set catalog \<subseteq> (\<lambda>dm. (name dm, load_message dm)) ` set (messages dbc)"
    by blast
  then obtain dm where "m = load_message dm"
    using dict_get_Inr_mem [OF assms(2)] by auto
  then show ?thesis by (simp add: load_message_signals)
qed

lemma list_all2_zip_result:
  "list_all2 P xs rs \<Longrightarrow> x \<in> set xs \<Longrightarrow> \<exists>r. (x, r) \<in> set (zip xs rs) \<and> P x r"
  by (induction xs rs rule: list_all2_induct) auto

lemma keys_zip_map:
  "length xs = length rs \<Longrightarrow>
     map fst (map (\<lambda>(x, c). (K x, F c)) (zip xs rs)) = map K xs"
  by (induction xs rs rule: list_induct2) auto

lemma message_signals_Inr:
  assumes "message_signals action sigs0 = Inr sigs" and "distinct (keys sigs0)"
    and "action = ''deleted'' \<or> action = ''added''"
  shows "keys sigs = map PStr (keys sigs0) \<and>
     (\<forall>sn s. dict_get sigs0 sn = Inr s \<longrightarrow>
        (\<exists>sp. dict_get sigs (PStr sn) =
                Inr (PDict [(PStr ''action'', PStr action), (PStr action, PList sp)]) \<and>
              inventory (action = ''deleted'') s signal_properties sp))"
proof -
  from assms(1) obtain rs where
    rs: "list_all2 (\<lambda>x r. (case x of (n, signal) \<Rightarrow>
            build_action action signal signal_properties PNone) = Inr r) sigs0 rs"
    and sigs: "sigs = map (\<lambda>(x, change). (PStr (fst x), PDict change)) (zip sigs0 rs)"
    by (auto simp: message_signals_eq [OF assms(2)] and_then_Inr_iff map_err_Inr_iff)
  have len: "length rs = length sigs0"
    using rs by (simp add: list_all2_lengthD)
  have "map fst (map (\<lambda>(x, c). (PStr (fst x), PDict c)) (zip sigs0 rs))
          = map (\<lambda>x. PStr (fst x)) sigs0"
    using len by (intro keys_zip_map) simp
  then have ks: "keys sigs = map PStr (keys sigs0)"
    by (simp add: sigs keys_def)
  have dk: "distinct (keys sigs)"
    unfolding ks using assms(2) by (simp add: distinct_map inj_on_def)
  have look: "\<exists>sp. dict_get sigs (PStr sn) =
                Inr (PDict [(PStr ''action'', PStr action), (PStr action, PList sp)]) \<and>
              inventory (action = ''deleted'') s signal_properties sp"
    if "dict_get sigs0 sn = Inr s" for sn s
  proof -
    have "(sn, s) \<in> set sigs0" using that by (rule dict_get_Inr_mem)
    from list_all2_zip_result [OF rs this] obtain r where
      z: "((sn, s), r) \<in> set (zip sigs0 rs)"
      and b: "build_action action s signal_properties PNone = Inr r"
      by auto
    from build_action_inventory [OF b assms(3)] obtain sp where
      inv: "inventory (action = ''deleted'') s signal_properties sp"
      and r: "r = build_change action (PList sp) PNone"
      by blast
    have "(PStr sn, PDict r) \<in> set sigs"
      unfolding sigs using z by force
    then have "dict_get sigs (PStr sn) = Inr (PDict r)"
      using dk by (intro dict_get_mem_Inr)
    then show ?thesis
      using inv r assms(3) by (auto simp: build_change_2)
  qed
  show ?thesis using ks look by blast
qed

lemma whole_message_Inr:
  assumes "whole_message action catalog n = Inr r"
    and "dbc_loader load_file path = Inr (catalog, v)"
    and "action = ''deleted'' \<or> action = ''added''"
  shows "\<exists>m. dict_get catalog n = Inr m \<and> whole_record action m (PDict r)"
proof -
  from assms(1) obtain m sigs where
    m: "dict_get catalog n = Inr m"
    and s: "message_signals action (msg_signals m) = Inr sigs"
    and b: "build_action action m message_properties (PDict sigs) = Inr r"
    by (auto simp: whole_message_def and_then_Inr_iff)
  have d: "distinct (keys (msg_signals m))"
    using assms(2) m by (rule catalog_signals_distinct)
  from build_action_inventory [OF b assms(3)] obtain payload where
    inv: "inventory (action = ''deleted'') m message_properties payload"
    and r: "r = build_change action (PList payload) (PDict sigs)"
    by blast
  have "r = [(PStr ''action'', PStr action), (PStr action, PList payload),
             (PStr ''signals'', PDict sigs)]"
    using r assms(3) by (auto simp: build_change_3)
  then have "whole_record action m (PDict r)"
    unfolding whole_record_def
    using inv message_signals_Inr [OF s d assms(3)] by blast
  then show ?thesis using m by blast
qed

section \<open>Well-typed catalogs\<close>

lemma map_err_total:
  "(\<And>x. x \<in> set xs \<Longrightarrow> \<exists>y. f x = Inr y) \<Longrightarrow> \<exists>ys. map_err f xs = Inr ys"
proof (induction xs)
  case Nil
  then show ?case by simp
next
  case (Cons x xs)
  obtain y where "f x = Inr y" using Cons.prems [of x] by auto
  moreover obtain ys where "map_err f xs = Inr ys" using Cons by auto
  ultimately show ?case by simp
qed

lemma map_err_const:
  "(\<And>x. x \<in> set xs \<Longrightarrow> f x = Inr c) \<Longrightarrow> map_err f xs = Inr (map (\<lambda>x. c) xs)"
  by (induction xs) auto

lemma for_each_fix:
  "(\<And>x. x \<in> set xs \<Longrightarrow> body x s = Inr s) \<Longrightarrow> for_each xs s body = Inr s"
  by (induction xs) auto

lemma wt_entity_attr:
  assumes "wt_entity item properties" and "(p, ft) \<in> set properties"
  shows "\<exists>raw c. getattr item p = Inr raw \<and> converter raw ft = Inr c \<and> py_eq c c"
proof -
  from assms have "case getattr item p of Inl _ \<Rightarrow> False | Inr raw \<Rightarrow> well_typed raw ft"
    by (auto simp: wt_entity_def list_all_iff)
  then obtain raw where "getattr item p = Inr raw" "well_typed raw ft"
    by (cases "getattr item p") auto
  then show ?thesis using converter_well_typed [of raw ft] by auto
qed

lemma compare_properties_self:
  assumes "wt_entity item properties"
  shows "compare_properties item item properties = Inr []"
proof -
  have "property_change item item x = Inr []" if "x \<in> set properties" for x
  proof -
    obtain p ft where x: "x = (p, ft)" by (cases x)
    from wt_entity_attr [OF assms that [unfolded x]] show ?thesis
      by (auto simp: property_change_def x)
  qed
  then have "map_err (property_change item item) properties
               = Inr (map (\<lambda>x. []) properties)"
    by (rule map_err_const)
  then show ?thesis
    by (simp add: compare_properties_eq)
qed

lemma build_action_total:
  assumes "wt_entity item properties" and "action = ''deleted'' \<or> action = ''added''"
  shows "\<exists>r. build_action action item properties signals = Inr r"
proof -
  have "\<exists>y. inventory_entry action item x = Inr y" if "x \<in> set properties" for x
  proof -
    obtain p ft where x: "x = (p, ft)" by (cases x)
    from wt_entity_attr [OF assms(1) that [unfolded x]] show ?thesis
      using assms(2) by (auto simp: inventory_entry_def x)
  qed
  then obtain ys where "map_err (inventory_entry action item) properties = Inr ys"
    using map_err_total by blast
  then show ?thesis by (simp add: build_action_eq)
qed

lemma compare_dictionaries_self:
  "compare_dictionaries d d = ([], sorted_list_of_set (set (keys d)), [])"
  by (simp add: compare_dictionaries_def Let_def)

lemma compare_dictionaries_empty_new:
  "compare_dictionaries d [] = ([], [], sorted_list_of_set (set (keys d)))"
  by (simp add: compare_dictionaries_def Let_def keys_def)

lemma compare_dictionaries_empty_old:
  "compare_dictionaries [] d = (sorted_list_of_set (set (keys d)), [], [])"
  by (simp add: compare_dictionaries_def Let_def keys_def)

lemma compare_messages_self:
  assumes "wt_message m"
  shows "compare_messages m m = Inr ([], [])"
proof -
  let ?same = "sorted_list_of_set (set (keys (msg_signals m)))"
  have props: "compare_properties m m message_properties = Inr []"
    using assms by (simp add: wt_message_def compare_properties_self)
  have l1: "for_each ?same [] (\<lambda>n signals_changes.
          and_then (dict_get (msg_signals m) n) (\<lambda>old_signal.
          and_then (dict_get (msg_signals m) n) (\<lambda>new_signal.
          and_then (compare_properties old_signal new_signal signal_properties)
            (\<lambda>changed_list.
            Inr (if length changed_list > 0
                 then dict_set signals_changes (PStr n)
                        (PDict (build_change ''changed'' (PList changed_list) PNone))
                 else signals_changes))))) = Inr []"
  proof (rule for_each_fix)
    fix n assume "n \<in> set ?same"
    then have "n \<in> set (keys (msg_signals m))" by simp
    from dict_get_keys [OF this] obtain s where s: "dict_get (msg_signals m) n = Inr s"
      by auto
    then have "(n, s) \<in> set (msg_signals m)" by (rule dict_get_Inr_mem)
    then have "wt_entity s signal_properties"
      using assms by (auto simp: wt_message_def list_all_iff)
    then have "compare_properties s s signal_properties = Inr []"
      by (rule compare_properties_self)
    then show "and_then (dict_get (msg_signals m) n) (\<lambda>old_signal.
          and_then (dict_get (msg_signals m) n) (\<lambda>new_signal.
          and_then (compare_properties old_signal new_signal signal_properties)
            (\<lambda>changed_list.
            Inr (if length changed_list > 0
                 then dict_set [] (PStr n)
                        (PDict (build_change ''changed'' (PList changed_list) PNone))
                 else [])))) = Inr []"
      using s by simp
  qed
  show ?thesis
    unfolding compare_messages_def compare_dictionaries_self props and_then.simps
      prod.case l1
    by simp
qed

lemma wt_loaded:
  assumes "wt_dbc dbc" and "dbc_message \<in> set (messages dbc)"
  shows "wt_message (load_message dbc_message)"
proof -
  have m: "wt_entity dbc_message message_properties"
    and s: "\<forall>signal \<in> set (dbc_signals dbc_message). wt_entity signal signal_properties"
    using assms by (auto simp: wt_dbc_def list_all_iff)
  have "wt_entity (load_message dbc_message) message_properties"
    using m by (simp add: wt_entity_def getattr_def load_message_def)
  moreover have "\<forall>(n, signal) \<in> set (msg_signals (load_message dbc_message)).
                   wt_entity signal signal_properties"
    using s load_message_signals(2) [of dbc_message] by auto
  ultimately show ?thesis
    by (simp add: wt_message_def list_all_iff)
qed

lemma wt_catalog:
  assumes "dbc_loader load_file (Some path) = Inr (catalog, v)"
    and "load_file path = Some dbc" and "wt_dbc dbc" and "dict_get catalog n = Inr m"
  shows "wt_message m"
proof -
  from dbc_loader_Some [OF assms(1)] assms(2)
  have "set catalog \<subseteq> (\<lambda>dm. (name dm, load_message dm)) ` set (messages dbc)"
    by auto
  moreover have "(n, m) \<in> set catalog" using assms(4) by (rule dict_get_Inr_mem)
  ultimately obtain dm where "dm \<in> set (messages dbc)" "m = load_message dm"
    by auto
  then show ?thesis using wt_loaded [OF assms(3)] by simp
qed

lemma dbc_loader_loaded:
  "load_file path = Some dbc \<Longrightarrow>
     \<exists>catalog. dbc_loader load_file (Some path) = Inr (catalog, side_version load_file (Some path))"
  by (simp add: dbc_loader_def side_version_def split: option.splits)

lemma message_signals_total:
  assumes "list_all (\<lambda>(n, signal). wt_entity signal signal_properties) sigs"
    and "action = ''deleted'' \<or> action = ''added''"
  shows "\<exists>r. message_signals action sigs = Inr r"
  unfolding message_signals_def
proof (rule for_each_total)
  fix x :: "string \<times> entity" and s :: "(pyval \<times> pyval) list"
  assume x: "x \<in> set sigs"
  obtain n signal where xs: "x = (n, signal)" by (cases x)
  have "wt_entity signal signal_properties"
    using assms(1) x xs by (auto simp: list_all_iff)
  from build_action_total [OF this assms(2), of PNone]
  obtain r where "build_action action signal signal_properties PNone = Inr r" by blast
  then show "\<exists>s'. (case x of (n, signal) \<Rightarrow> \<lambda>signals_changes.
       and_then (build_action action signal signal_properties PNone) (\<lambda>change.
         Inr (dict_set signals_changes (PStr n) (PDict change)))) s = Inr s'"
    by (simp add: xs)
qed

lemma whole_message_total:
  assumes "dict_get catalog n = Inr m" and "wt_message m"
    and "action = ''deleted'' \<or> action = ''added''"
  shows "\<exists>r. whole_message action catalog n = Inr r"
proof -
  obtain sigs where s: "message_signals action (msg_signals m) = Inr sigs"
    using message_signals_total [of "msg_signals m" action] assms(2,3)
    by (auto simp: wt_message_def)
  obtain r where "build_action action m message_properties (PDict sigs) = Inr r"
    using build_action_total [of m message_properties action "PDict sigs"] assms(2,3)
    by (auto simp: wt_message_def)
  then show ?thesis
    using assms(1) s by (simp add: whole_message_def)
qed

lemma whole_loop_total:
  assumes "\<And>n. n \<in> set names \<Longrightarrow> \<exists>m. dict_get catalog n = Inr m \<and> wt_message m"
    and "action = ''deleted'' \<or> action = ''added''"
  shows "\<exists>r. for_each names acc (\<lambda>n dbc_report.
          and_then (dict_get catalog n) (\<lambda>message.
          and_then (message_signals action (msg_signals message)) (\<lambda>sigs.
          and_then (build_action action message message_properties (PDict sigs))
            (\<lambda>change. Inr (dict_set dbc_report (PStr n) (PDict change)))))) = Inr r"
proof (rule for_each_total)
  fix n :: string and s :: "(pyval \<times> pyval) list"
  assume "n \<in> set names"
  then obtain m where m: "dict_get catalog n = Inr m" "wt_message m"
    using assms(1) by blast
  from whole_message_total [OF m assms(2)] obtain r where
    "whole_message action catalog n = Inr r" by blast
  then show "\<exists>s'. and_then (dict_get catalog n) (\<lambda>message.
          and_then (message_signals action (msg_signals message)) (\<lambda>sigs.
          and_then (build_action action message message_properties (PDict sigs))
            (\<lambda>change. Inr (dict_set s (PStr n) (PDict change))))) = Inr s'"
    by (auto simp: whole_message_def and_then_Inr_iff)
qed

lemma compare_dbc_one_sided_total:
  assumes "load_file path = Some dbc" and "wt_dbc dbc"
  shows "\<exists>report versions. compare_dbc load_file (Some path) None = Inr (report, versions)"
    and "\<exists>report versions. compare_dbc load_file None (Some path) = Inr (report, versions)"
proof -
  obtain catalog where
    lo: "dbc_loader load_file (Some path) = Inr (catalog, side_version load_file (Some path))"
    using dbc_loader_loaded [of load_file path dbc] assms(1) by blast
  let ?names = "sorted_list_of_set (set (keys catalog))"
  have wt: "\<exists>m. dict_get catalog n = Inr m \<and> wt_message m" if "n \<in> set ?names" for n
  proof -
    have "n \<in> set (keys catalog)" using that by simp
    from dict_get_keys [OF this] obtain m where m: "dict_get catalog n = Inr m" by auto
    then show ?thesis using wt_catalog [OF lo assms(1,2) m] by blast
  qed
  obtain r1 where r1: "for_each ?names [] (\<lambda>n dbc_report.
          and_then (dict_get catalog n) (\<lambda>message.
          and_then (message_signals ''deleted'' (msg_signals message)) (\<lambda>sigs.
          and_then (build_action ''deleted'' message message_properties (PDict sigs))
            (\<lambda>change. Inr (dict_set dbc_report (PStr n) (PDict change)))))) = Inr r1"
    using whole_loop_total [of ?names catalog "''deleted''" "[]"] wt by blast
  obtain r2 where r2: "for_each ?names [] (\<lambda>n dbc_report.
          and_then (dict_get catalog n) (\<lambda>message.
          and_then (message_signals ''added'' (msg_signals message)) (\<lambda>sigs.
          and_then (build_action ''added'' message message_properties (PDict sigs))
            (\<lambda>change. Inr (dict_set dbc_report (PStr n) (PDict change)))))) = Inr r2"
    using whole_loop_total [of ?names catalog "''added''" "[]"] wt by blast
  show "\<exists>report versions. compare_dbc load_file (Some path) None = Inr (report, versions)"
    unfolding compare_dbc_def lo dbc_loader_None and_then.simps prod.case
      compare_dictionaries_empty_new for_each.simps r1 version_entries_eq
    by simp
  show "\<exists>report versions. compare_dbc load_file None (Some path) = Inr (report, versions)"
    unfolding compare_dbc_def lo dbc_loader_None and_then.simps prod.case
      compare_dictionaries_empty_old for_each.simps r2 version_entries_eq
    by simp
qed

lemma compare_dbc_self:
  assumes "load_file old_path = Some dbc" and "load_file new_path = Some dbc" and "wt_dbc dbc"
  shows "compare_dbc load_file (Some old_path) (Some new_path) =
     Inr ([], version_entries (Some old_path) (Some new_path)
                (side_version load_file (Some old_path))
                (side_version load_file (Some new_path)))"
proof -
  obtain catalog where
    lo: "dbc_loader load_file (Some old_path)
           = Inr (catalog, side_version load_file (Some old_path))"
    using dbc_loader_loaded [of load_file old_path dbc] assms(1) by blast
  have ln: "dbc_loader load_file (Some new_path)
           = Inr (catalog, side_version load_file (Some new_path))"
    using lo assms(1,2) by (simp add: dbc_loader_def side_version_def)
  let ?names = "sorted_list_of_set (set (keys catalog))"
  have l1: "for_each ?names [] (\<lambda>n dbc_report.
          and_then (dict_get catalog n) (\<lambda>old_message.
          and_then (dict_get catalog n) (\<lambda>new_message.
          and_then (compare_messages old_message new_message)
            (\<lambda>(message_changed_list, signals_changed_list).
            Inr (if length message_changed_list > 0 \<or> length signals_changed_list > 0
                 then dict_set dbc_report (PStr n)
                        (PDict (build_change ''changed'' (PList message_changed_list)
                                  (PDict signals_changed_list)))
                 else dbc_report))))) = Inr []"
  proof (rule for_each_fix)
    fix n assume "n \<in> set ?names"
    then have "n \<in> set (keys catalog)" by simp
    from dict_get_keys [OF this] obtain m where m: "dict_get catalog n = Inr m" by auto
    have "compare_messages m m = Inr ([], [])"
      using wt_catalog [OF lo assms(1,3) m] by (rule compare_messages_self)
    then show "and_then (dict_get catalog n) (\<lambda>old_message.
          and_then (dict_get catalog n) (\<lambda>new_message.
          and_then (compare_messages old_message new_message)
            (\<lambda>(message_changed_list, signals_changed_list).
            Inr (if length message_changed_list > 0 \<or> length signals_changed_list > 0
                 then dict_set [] (PStr n)
                        (PDict (build_change ''changed'' (PList message_changed_list)
                                  (PDict signals_changed_list)))
                 else [])))) = Inr []"
      using m by simp
  qed
  show ?thesis
    unfolding compare_dbc_def lo ln and_then.simps prod.case
      compare_dictionaries_self l1 for_each.simps version_entries_eq
    by simp
qed

section \<open>The deltas about one attribute\<close>

lemma property_change_names:
  "property_change a b (p, ft) = Inr r \<Longrightarrow> deltas_of q r = (if q = p then r else [])"
  by (auto simp: property_change_def and_then_Inr_iff deltas_of_def subscript_def
        property_delta_def split: if_splits)

lemma deltas_of_append: "deltas_of p (xs @ ys) = deltas_of p xs @ deltas_of p ys"
  by (simp add: deltas_of_def)

lemma compare_properties_named:
  assumes "compare_properties a b props = Inr changes"
    and "distinct (map fst props)" and "(p, ft) \<in> set props"
  shows "property_change a b (p, ft) = Inr (deltas_of p changes)"
proof -
  from assms(1) obtain rs where
    rs: "list_all2 (\<lambda>x r. property_change a b x = Inr r) props rs" and c: "changes = concat rs"
    by (auto simp: compare_properties_eq and_then_Inr_iff map_err_Inr_iff)
  from rs assms(2,3) have "property_change a b (p, ft) = Inr (deltas_of p (concat rs))"
  proof (induction props rs rule: list_all2_induct)
    case Nil
    then show ?case by simp
  next
    case (Cons x xs r rs)
    obtain q ft' where x: "x = (q, ft')" by (cases x)
    show ?case
    proof (cases "q = p")
      case True
      then have "ft' = ft" and notin: "p \<notin> fst ` set xs"
        using Cons.prems x by (auto simp: rev_image_eqI)
      have "deltas_of p (concat rs) = []"
        using Cons.hyps(2) notin
      proof (induction xs rs rule: list_all2_induct)
        case Nil
        then show ?case by (simp add: deltas_of_def)
      next
        case (Cons y ys s ss)
        obtain q' f' where "y = (q', f')" by (cases y)
        then show ?case
          using Cons by (auto simp: deltas_of_append dest: property_change_names [where q = p])
      qed
      then show ?thesis
        using Cons.hyps(1) x True \<open>ft' = ft\<close>
        by (simp add: deltas_of_append property_change_names)
    next
      case False
      then have "(p, ft) \<in> set xs" using Cons.prems x by auto
      then have "property_change a b (p, ft) = Inr (deltas_of p (concat rs))"
        using Cons.IH Cons.prems by simp
      then show ?thesis
        using Cons.hyps(1) x False by (simp add: deltas_of_append property_change_names)
    qed
  qed
  then show ?thesis by (simp add: c)
qed

section \<open>The signals key\<close>

lemma compare_dictionaries_same:
  "compare_dictionaries old new = (a, c, r) \<Longrightarrow>
     n \<in> set (keys old) \<Longrightarrow> n \<in> set (keys new) \<Longrightarrow> n \<in> set c \<and> n \<notin> set a \<and> n \<notin> set r"
  by (drule compare_dictionaries_sets) auto

text \<open>
  C10.  In the signal map that \<open>compare_messages\<close> returns, the record of a signal
  present on both sides is a dictionary with exactly the two keys \<open>action\<close> and
  \<open>changed\<close>, so it has no key \<open>signals\<close>.  Every record in the report of \<open>compare_dbc\<close>,
  whether of a changed, an added or a deleted message, has the key \<open>signals\<close>, and under
  it a dictionary (possibly empty) from signal names to signal records.
\<close>

theorem signals_key_presence:
  "(compare_messages old_message new_message = Inr (changes, signals_changes) \<and>
    n \<in> set (keys (msg_signals old_message)) \<and> n \<in> set (keys (msg_signals new_message)) \<and>
    dict_get signals_changes (PStr n) = Inr r \<longrightarrow>
      (\<exists>changed_list.
         r = PDict [(PStr ''action'', PStr ''changed''), (PStr ''changed'', PList changed_list)]) \<and>
      subscript r (PStr ''signals'') = Inl KeyError) \<and>
   (compare_dbc load_file old_path new_path = Inr (report, versions) \<and>
    dict_get report k = Inr m \<longrightarrow>
      (\<exists>sigs. subscript m (PStr ''signals'') = Inr (PDict sigs) \<and>
         list_all (\<lambda>(sk, sr). is_str sk \<and>
           signal_record [''changed'', ''deleted'', ''added''] sr) sigs))"
proof -
  have part1: "(\<exists>changed_list.
         r = PDict [(PStr ''action'', PStr ''changed''), (PStr ''changed'', PList changed_list)]) \<and>
      subscript r (PStr ''signals'') = Inl KeyError"
    if cm: "compare_messages old_message new_message = Inr (changes, signals_changes)"
    and old: "n \<in> set (keys (msg_signals old_message))"
    and new: "n \<in> set (keys (msg_signals new_message))"
    and get: "dict_get signals_changes (PStr n) = Inr r"
  proof -
    obtain added same deleted where
    cd: "compare_dictionaries (msg_signals old_message) (msg_signals new_message)
           = (added, same, deleted)"
    by (cases "compare_dictionaries (msg_signals old_message) (msg_signals new_message)") auto
  from compare_messages_Inr [OF cm cd] obtain rs1 rs2 rs3 where
    sc: "signals_changes =
         stored PStr (\<lambda>n. changed_signal) same rs1 @
         stored PStr (\<lambda>n r. Some (PDict r)) deleted rs2 @
         stored PStr (\<lambda>n r. Some (PDict r)) added rs3"
    by blast
  have n: "n \<in> set same" "n \<notin> set added" "n \<notin> set deleted"
    using compare_dictionaries_same [OF cd old new] by auto
  have "(PStr n, r) \<in> set signals_changes"
    using get by (rule dict_get_Inr_mem)
  then have "(PStr n, r) \<in> set (stored PStr (\<lambda>n. changed_signal) same rs1)"
    using n unfolding sc by (auto dest!: stored_keyD)
  then obtain cl where "changed_signal cl = Some r"
    by (auto dest!: stored_memD)
  then have "r = PDict [(PStr ''action'', PStr ''changed''), (PStr ''changed'', PList cl)]"
    by (auto simp: changed_signal_def build_change_2 split: if_splits)
    then show ?thesis
      by (simp add: subscript_def)
  qed
  have part2: "\<exists>sigs. subscript m (PStr ''signals'') = Inr (PDict sigs) \<and>
         list_all (\<lambda>(sk, sr). is_str sk \<and>
           signal_record [''changed'', ''deleted'', ''added''] sr) sigs"
    if cd: "compare_dbc load_file old_path new_path = Inr (report, versions)"
    and get: "dict_get report k = Inr m"
  proof -
  have "(k, m) \<in> set report"
    using get by (rule dict_get_Inr_mem)
  then have "message_record [''changed'', ''deleted'', ''added''] m"
    using compare_dbc_records [OF cd, of "[''changed'', ''deleted'', ''added'']"]
    by (auto simp: named_records_def list_all_iff)
  then show ?thesis
    by (auto simp: message_record_def named_records_def
        split: option.splits sum.splits pyval.splits)
  qed
  show ?thesis
    using part1 part2 by blast
qed

theorem signals_key_presence_witness:
  "compare_messages
       (load_message (mk_message ''M1'' 100 [mk_signal ''S1'' (PInt 0) PNone]))
       (load_message (mk_message ''M1'' 100 [mk_signal ''S1'' (PInt 5) PNone]))
     = Inr ([], [(PStr ''S1'',
                  PDict [(PStr ''action'', PStr ''changed''),
                         (PStr ''changed'',
                          PList [PDict [(PStr ''name'', PStr ''minimum''),
                                        (PStr ''old'', PInt 0), (PStr ''new'', PInt 5)]])])]) \<and>
   subscript
       (PDict [(PStr ''action'', PStr ''changed''),
               (PStr ''changed'',
                PList [PDict [(PStr ''name'', PStr ''minimum''),
                              (PStr ''old'', PInt 0), (PStr ''new'', PInt 5)]])])
       (PStr ''signals'')
     = Inl KeyError \<and>
   compare_dbc ex_files None (Some ''new/m2.dbc'')
     = Inr ([(PStr ''M2'', m2_added)],
            [(PStr ''new_version'', PStr ''2.1''), (PStr ''same_version'', PBool False)]) \<and>
   subscript m2_added (PStr ''signals'') = Inr (PDict [])"
proof -
  let ?old = "load_message (mk_message ''M1'' 100 [mk_signal ''S1'' (PInt 0) PNone])"
  let ?new = "load_message (mk_message ''M1'' 100 [mk_signal ''S1'' (PInt 5) PNone])"
  let ?r = "PDict [(PStr ''action'', PStr ''changed''),
                   (PStr ''changed'',
                    PList [PDict [(PStr ''name'', PStr ''minimum''),
                                  (PStr ''old'', PInt 0), (PStr ''new'', PInt 5)]])]"
  have cm: "compare_messages ?old ?new = Inr ([], [(PStr ''S1'', ?r)])"
    by code_simp
  have ks: "''S1'' \<in> set (keys (msg_signals ?old))" "''S1'' \<in> set (keys (msg_signals ?new))"
    by code_simp+
  have g1: "dict_get [(PStr ''S1'', ?r)] (PStr ''S1'') = Inr ?r"
    by simp
  have cd: "compare_dbc ex_files None (Some ''new/m2.dbc'')
     = Inr ([(PStr ''M2'', m2_added)],
            [(PStr ''new_version'', PStr ''2.1''), (PStr ''same_version'', PBool False)])"
    by code_simp
  have g2: "dict_get [(PStr ''M2'', m2_added)] (PStr ''M2'') = Inr m2_added"
    by simp
  have sg: "subscript m2_added (PStr ''signals'') = Inr (PDict [])"
    by code_simp
  from signals_key_presence
    [of ?old ?new "[]" "[(PStr ''S1'', ?r)]" "''S1''" ?r
        ex_files None "Some ''new/m2.dbc''" "[(PStr ''M2'', m2_added)]"
        "[(PStr ''new_version'', PStr ''2.1''), (PStr ''same_version'', PBool False)]"
        "PStr ''M2''" m2_added]
  have "subscript ?r (PStr ''signals'') = Inl KeyError"
    using cm ks g1 by blast
  then show ?thesis
    using cm cd sg by simp
qed

section \<open>A catalog against itself\<close>

text \<open>
  C2.  Diffing a well-typed catalog against itself, loaded from one path or from two
  paths that hold the same catalog, returns an empty message map and version metadata
  whose \<open>same_version\<close> is true.  In particular, on any two sides, a message present on
  both for which \<open>compare_messages\<close> returns an empty delta list and an empty signal map
  has no entry in the report: it is omitted, not recorded with any action.
\<close>

theorem self_diff_empty:
  "(load_file old_path = Some dbc \<and> load_file new_path = Some dbc \<and> wt_dbc dbc \<longrightarrow>
      compare_dbc load_file (Some old_path) (Some new_path) =
        Inr ([],
             [(PStr ''new_version'', version_value (side_version load_file (Some new_path))),
              (PStr ''old_version'', version_value (side_version load_file (Some old_path))),
              (PStr ''same_version'', PBool True)])) \<and>
   (compare_dbc load_file old_side new_side = Inr (report, versions) \<and>
    dbc_loader load_file old_side = Inr (old_dbc, old_version) \<and>
    dbc_loader load_file new_side = Inr (new_dbc, new_version) \<and>
    dict_get old_dbc n = Inr old_message \<and> dict_get new_dbc n = Inr new_message \<and>
    compare_messages old_message new_message = Inr ([], []) \<longrightarrow>
      PStr n \<notin> set (keys report))"
proof -
  have part1: "compare_dbc load_file (Some old_path) (Some new_path) =
        Inr ([],
             [(PStr ''new_version'', version_value (side_version load_file (Some new_path))),
              (PStr ''old_version'', version_value (side_version load_file (Some old_path))),
              (PStr ''same_version'', PBool True)])"
    if l: "load_file old_path = Some dbc" "load_file new_path = Some dbc" and wt: "wt_dbc dbc"
  proof -
    have "side_version load_file (Some old_path) = side_version load_file (Some new_path)"
      using l by (simp add: side_version_def)
    then show ?thesis
      using compare_dbc_self [OF l wt] by (simp add: version_entries_def)
  qed
  have part2: "PStr n \<notin> set (keys report)"
    if c: "compare_dbc load_file old_side new_side = Inr (report, versions)"
      and lo: "dbc_loader load_file old_side = Inr (old_dbc, old_version)"
      and ln: "dbc_loader load_file new_side = Inr (new_dbc, new_version)"
      and o: "dict_get old_dbc n = Inr old_message"
      and nw: "dict_get new_dbc n = Inr new_message"
      and cm: "compare_messages old_message new_message = Inr ([], [])"
  proof -
    from compare_dbc_Inr [OF c] lo ln obtain added same deleted rs1 rs2 rs3 where
      cd: "compare_dictionaries old_dbc new_dbc = (added, same, deleted)"
      and rs1: "list_all2 (\<lambda>n r. common_message old_dbc new_dbc n = Inr r) same rs1"
      and rp: "report =
         stored PStr (\<lambda>n. changed_message) same rs1 @
         stored PStr (\<lambda>n r. Some (PDict r)) deleted rs2 @
         stored PStr (\<lambda>n r. Some (PDict r)) added rs3"
      by auto
    have "n \<in> set (keys old_dbc)" "n \<in> set (keys new_dbc)"
      using o nw by (auto simp: keys_def dest!: dict_get_Inr_mem intro: rev_image_eqI)
    from compare_dictionaries_same [OF cd this]
    have n: "n \<in> set same" "n \<notin> set added" "n \<notin> set deleted" by auto
    have r: "common_message old_dbc new_dbc n = Inr ([], [])"
      using o nw cm by (simp add: common_message_def)
    have inj: "inj_on PStr (set same)" by (simp add: inj_on_def)
    have "PStr n \<notin> set (keys (stored PStr (\<lambda>n. changed_message) same rs1))"
      using stored_lookup_None [OF rs1 inj n(1) r, of "\<lambda>n. changed_message"]
      by (simp add: changed_message_def)
    moreover have "PStr n \<notin> set (keys (stored PStr (\<lambda>n r. Some (PDict r)) deleted rs2))"
      "PStr n \<notin> set (keys (stored PStr (\<lambda>n r. Some (PDict r)) added rs3))"
      using n stored_keys [of PStr "\<lambda>n r. Some (PDict r)" deleted rs2]
        stored_keys [of PStr "\<lambda>n r. Some (PDict r)" added rs3] by auto
    ultimately show ?thesis
      by (simp add: rp keys_def)
  qed
  show ?thesis
    using part1 part2 by blast
qed

theorem self_diff_empty_witness:
  "wt_dbc ex_old \<and>
   compare_dbc ex_files (Some ''old/a.dbc'') (Some ''old/a.dbc'') =
     Inr ([], [(PStr ''new_version'', PStr ''unknown''),
               (PStr ''old_version'', PStr ''unknown''),
               (PStr ''same_version'', PBool True)]) \<and>
   compare_dbc ex_files (Some ''old/a.dbc'') (Some ''new/a_m2.dbc'') =
     Inr ([(PStr ''M2'', m2_added)],
          [(PStr ''new_version'', PStr ''unknown''),
           (PStr ''old_version'', PStr ''unknown''),
           (PStr ''same_version'', PBool True)]) \<and>
   PStr ''M1'' \<notin> set (keys [(PStr ''M2'', m2_added)])"
proof -
  have wt: "wt_dbc ex_old" by code_simp
  have l: "ex_files ''old/a.dbc'' = Some ex_old" by code_simp
  have v: "side_version ex_files (Some ''old/a.dbc'') = Some ''unknown''" by code_simp
  have run: "compare_dbc ex_files (Some ''old/a.dbc'') (Some ''new/a_m2.dbc'') =
     Inr ([(PStr ''M2'', m2_added)],
          [(PStr ''new_version'', PStr ''unknown''),
           (PStr ''old_version'', PStr ''unknown''),
           (PStr ''same_version'', PBool True)])"
    by code_simp
  have "and_then (dbc_loader ex_files (Some ''old/a.dbc'')) (\<lambda>(old_dbc, ov).
        and_then (dbc_loader ex_files (Some ''new/a_m2.dbc'')) (\<lambda>(new_dbc, nv).
        and_then (dict_get old_dbc ''M1'') (\<lambda>old_message.
        and_then (dict_get new_dbc ''M1'') (\<lambda>new_message.
          compare_messages old_message new_message)))) = Inr ([], [])"
    by code_simp
  then obtain old_dbc ov new_dbc nv old_message new_message where
    h: "dbc_loader ex_files (Some ''old/a.dbc'') = Inr (old_dbc, ov)"
      "dbc_loader ex_files (Some ''new/a_m2.dbc'') = Inr (new_dbc, nv)"
      "dict_get old_dbc ''M1'' = Inr old_message" "dict_get new_dbc ''M1'' = Inr new_message"
      "compare_messages old_message new_message = Inr ([], [])"
    by (auto simp: and_then_Inr_iff)
  from self_diff_empty
    [of ex_files "''old/a.dbc''" ex_old "''old/a.dbc''"
        "Some ''old/a.dbc''" "Some ''new/a_m2.dbc''" "[(PStr ''M2'', m2_added)]"
        "[(PStr ''new_version'', PStr ''unknown''), (PStr ''old_version'', PStr ''unknown''),
          (PStr ''same_version'', PBool True)]"
        old_dbc ov new_dbc nv "''M1''" old_message new_message]
  show ?thesis
    using wt l v run h by (simp add: version_value_def)
qed

section \<open>Whole catalogs added or deleted\<close>

lemma one_sided_report:
  assumes rs: "list_all2 (\<lambda>n r. whole_message action catalog n = Inr r) names rs"
    and lo: "dbc_loader load_file path = Inr (catalog, v)"
    and names: "names = sorted_list_of_set (set (keys catalog))"
    and a: "action = ''deleted'' \<or> action = ''added''"
    and rp: "report = stored PStr (\<lambda>n r. Some (PDict r)) names rs"
  shows "keys report = map PStr names \<and>
     (\<forall>n m. dict_get catalog n = Inr m \<longrightarrow>
        (\<exists>r. dict_get report (PStr n) = Inr r \<and> whole_record action m r))"
proof -
  have len: "length names = length rs"
    using rs by (rule list_all2_lengthD)
  have rp': "report = map (\<lambda>(n, r). (PStr n, PDict r)) (zip names rs)"
    by (simp add: rp stored_always)
  have "map fst (map (\<lambda>(n, r). (PStr n, PDict r)) (zip names rs)) = map PStr names"
    using len by (rule keys_zip_map)
  then have ks: "keys report = map PStr names"
    by (simp add: rp' keys_def)
  have dk: "distinct (keys report)"
    unfolding ks by (simp add: names distinct_map inj_on_def)
  have look: "\<exists>r. dict_get report (PStr n) = Inr r \<and> whole_record action m r"
    if m: "dict_get catalog n = Inr m" for n m
  proof -
    have "(n, m) \<in> set catalog" using m by (rule dict_get_Inr_mem)
    then have "n \<in> set names"
      by (auto simp: names keys_def intro: rev_image_eqI)
    from list_all2_zip_result [OF rs this] obtain r where
      z: "(n, r) \<in> set (zip names rs)" and w: "whole_message action catalog n = Inr r"
      by auto
    from whole_message_Inr [OF w lo a] m have wr: "whole_record action m (PDict r)"
      by auto
    have "(PStr n, PDict r) \<in> set report"
      unfolding rp' using z by force
    then have "dict_get report (PStr n) = Inr (PDict r)"
      using dk by (intro dict_get_mem_Inr)
    then show ?thesis using wr by blast
  qed
  show ?thesis using ks look by blast
qed

text \<open>
  C3 as the specification states it: against an absent new side every message and every
  signal is marked \<open>removed\<close>.  The program marks them \<open>deleted\<close>: the record of a message
  of the old catalog has the action tag \<open>deleted\<close> and no key \<open>removed\<close>, and so has the
  record of each of its signals.
\<close>

theorem removed_tag_counterexample:
  "and_then (compare_dbc ex_files (Some ''old/a.dbc'') None) (\<lambda>(report, versions).
     and_then (dict_get report (PStr ''M1'')) (\<lambda>m. subscript m (PStr ''action'')))
     = Inr (PStr ''deleted'') \<and>
   and_then (compare_dbc ex_files (Some ''old/a.dbc'') None) (\<lambda>(report, versions).
     and_then (dict_get report (PStr ''M1'')) (\<lambda>m. subscript m (PStr ''removed'')))
     = Inl KeyError \<and>
   and_then (compare_dbc ex_files (Some ''old/a.dbc'') None) (\<lambda>(report, versions).
     and_then (dict_get report (PStr ''M1'')) (\<lambda>m.
     and_then (subscript m (PStr ''signals'')) (\<lambda>sigs.
     and_then (subscript sigs (PStr ''S1'')) (\<lambda>s. subscript s (PStr ''action'')))))
     = Inr (PStr ''deleted'')"
  by code_simp

text \<open>
  C3, amended.  For a catalog as the loader returns it, diffing it against an absent new
  side gives a report with exactly its message names, in sorted order, and the record of
  every message marks the message and every one of its signals as \<open>deleted\<close>: the payload
  holds exactly one property delta for each schema attribute whose value is not \<open>None\<close>
  on the entity, with the normalised value as \<open>old\<close> and \<open>None\<close> as \<open>new\<close>.  Diffing an
  absent old side against the catalog is the mirror image with \<open>added\<close>: the value is
  \<open>new\<close> and \<open>old\<close> is \<open>None\<close>.  Both diffs return when the catalog is well typed.
\<close>

theorem full_inventory_capture:
  assumes "dbc_loader load_file (Some path) = Inr (catalog, v)"
  shows
    "(\<forall>report versions.
        compare_dbc load_file (Some path) None = Inr (report, versions) \<longrightarrow>
        keys report = map PStr (sorted_list_of_set (set (keys catalog))) \<and>
        (\<forall>n m. dict_get catalog n = Inr m \<longrightarrow>
           (\<exists>r. dict_get report (PStr n) = Inr r \<and> whole_record ''deleted'' m r))) \<and>
     (\<forall>report versions.
        compare_dbc load_file None (Some path) = Inr (report, versions) \<longrightarrow>
        keys report = map PStr (sorted_list_of_set (set (keys catalog))) \<and>
        (\<forall>n m. dict_get catalog n = Inr m \<longrightarrow>
           (\<exists>r. dict_get report (PStr n) = Inr r \<and> whole_record ''added'' m r))) \<and>
     (\<forall>dbc. load_file path = Some dbc \<and> wt_dbc dbc \<longrightarrow>
        (\<exists>report versions. compare_dbc load_file (Some path) None = Inr (report, versions)) \<and>
        (\<exists>report versions. compare_dbc load_file None (Some path) = Inr (report, versions)))"
proof -
  let ?names = "sorted_list_of_set (set (keys catalog))"
  have del: "keys report = map PStr ?names \<and>
        (\<forall>n m. dict_get catalog n = Inr m \<longrightarrow>
           (\<exists>r. dict_get report (PStr n) = Inr r \<and> whole_record ''deleted'' m r))"
    if c: "compare_dbc load_file (Some path) None = Inr (report, versions)"
    for report versions
  proof -
    from compare_dbc_Inr [OF c] assms dbc_loader_None [of load_file]
    obtain added same deleted rs1 rs2 rs3 where
      cd: "compare_dictionaries catalog ([] :: (string \<times> message) list)
             = (added, same, deleted)"
      and rs1: "list_all2 (\<lambda>n r. common_message catalog [] n = Inr r) same rs1"
      and rs2: "list_all2 (\<lambda>n r. whole_message ''deleted'' catalog n = Inr r) deleted rs2"
      and rs3: "list_all2 (\<lambda>n r. whole_message ''added'' [] n = Inr r) added rs3"
      and rp: "report =
         stored PStr (\<lambda>n. changed_message) same rs1 @
         stored PStr (\<lambda>n r. Some (PDict r)) deleted rs2 @
         stored PStr (\<lambda>n r. Some (PDict r)) added rs3"
      by auto
    have e: "added = []" "same = []" "deleted = ?names"
      using cd by (simp_all add: compare_dictionaries_empty_new)
    have "rs1 = []" "rs3 = []" using rs1 rs3 e by simp_all
    then have rp': "report = stored PStr (\<lambda>n r. Some (PDict r)) ?names rs2"
      using rp e by (simp add: stored_def)
    show ?thesis
      using rs2 [unfolded e] assms refl _ rp' by (rule one_sided_report) simp
  qed
  have add: "keys report = map PStr ?names \<and>
        (\<forall>n m. dict_get catalog n = Inr m \<longrightarrow>
           (\<exists>r. dict_get report (PStr n) = Inr r \<and> whole_record ''added'' m r))"
    if c: "compare_dbc load_file None (Some path) = Inr (report, versions)"
    for report versions
  proof -
    from compare_dbc_Inr [OF c] assms dbc_loader_None [of load_file]
    obtain added same deleted rs1 rs2 rs3 where
      cd: "compare_dictionaries ([] :: (string \<times> message) list) catalog
             = (added, same, deleted)"
      and rs1: "list_all2 (\<lambda>n r. common_message [] catalog n = Inr r) same rs1"
      and rs2: "list_all2 (\<lambda>n r. whole_message ''deleted'' [] n = Inr r) deleted rs2"
      and rs3: "list_all2 (\<lambda>n r. whole_message ''added'' catalog n = Inr r) added rs3"
      and rp: "report =
         stored PStr (\<lambda>n. changed_message) same rs1 @
         stored PStr (\<lambda>n r. Some (PDict r)) deleted rs2 @
         stored PStr (\<lambda>n r. Some (PDict r)) added rs3"
      by auto
    have e: "added = ?names" "same = []" "deleted = []"
      using cd by (simp_all add: compare_dictionaries_empty_old)
    have "rs1 = []" "rs2 = []" using rs1 rs2 e by simp_all
    then have rp': "report = stored PStr (\<lambda>n r. Some (PDict r)) ?names rs3"
      using rp e by (simp add: stored_def)
    show ?thesis
      using rs3 [unfolded e] assms refl _ rp' by (rule one_sided_report) simp
  qed
  show ?thesis
    using del add compare_dbc_one_sided_total [of load_file path] by blast
qed

theorem full_inventory_capture_witness:
  "dbc_loader ex_files (Some ''old/a.dbc'')
     = Inr ([(''M1'', load_message ex_m1)], Some ''unknown'') \<and>
   wt_dbc ex_old \<and>
   compare_dbc ex_files (Some ''old/a.dbc'') None
     = Inr ([(PStr ''M1'', m1_whole ''deleted'')],
            [(PStr ''old_version'', PStr ''unknown''), (PStr ''same_version'', PBool False)]) \<and>
   compare_dbc ex_files None (Some ''old/a.dbc'')
     = Inr ([(PStr ''M1'', m1_whole ''added'')],
            [(PStr ''new_version'', PStr ''unknown''), (PStr ''same_version'', PBool False)]) \<and>
   whole_record ''deleted'' (load_message ex_m1) (m1_whole ''deleted'') \<and>
   whole_record ''added'' (load_message ex_m1) (m1_whole ''added'')"
proof -
  have lo: "dbc_loader ex_files (Some ''old/a.dbc'')
     = Inr ([(''M1'', load_message ex_m1)], Some ''unknown'')"
    by (simp add: dbc_loader_def ex_files_def ex_old_def ex_m1_def mk_message_def)
  have wt: "wt_dbc ex_old"
    by code_simp
  have f: "ex_files ''old/a.dbc'' = Some ex_old"
    by (simp add: ex_files_def)
  have d: "compare_dbc ex_files (Some ''old/a.dbc'') None
     = Inr ([(PStr ''M1'', m1_whole ''deleted'')],
            [(PStr ''old_version'', PStr ''unknown''), (PStr ''same_version'', PBool False)])"
    by code_simp
  have a: "compare_dbc ex_files None (Some ''old/a.dbc'')
     = Inr ([(PStr ''M1'', m1_whole ''added'')],
            [(PStr ''new_version'', PStr ''unknown''), (PStr ''same_version'', PBool False)])"
    by code_simp
  have g: "dict_get [(''M1'', load_message ex_m1)] ''M1'' = Inr (load_message ex_m1)"
    by simp
  note cap = full_inventory_capture [OF lo]
  have "\<exists>r. dict_get [(PStr ''M1'', m1_whole ''deleted'')] (PStr ''M1'') = Inr r \<and>
          whole_record ''deleted'' (load_message ex_m1) r"
    using cap d g by blast
  moreover have "\<exists>r. dict_get [(PStr ''M1'', m1_whole ''added'')] (PStr ''M1'') = Inr r \<and>
          whole_record ''added'' (load_message ex_m1) r"
    using cap a g by blast
  moreover have
    "(\<exists>report versions.
        compare_dbc ex_files (Some ''old/a.dbc'') None = Inr (report, versions)) \<and>
     (\<exists>report versions.
        compare_dbc ex_files None (Some ''old/a.dbc'') = Inr (report, versions))"
    using cap f wt by blast
  ultimately show ?thesis
    using lo d a wt by auto
qed

section \<open>Action tags\<close>

text \<open>
  C4 as the specification states it: the action tag of every change record is one of
  \<open>added\<close>, \<open>removed\<close>, \<open>changed\<close>, \<open>unchanged\<close>.  The program never writes \<open>removed\<close>: the
  record of a file that is only in the old collection carries the tag \<open>deleted\<close> and
  its payload under the key \<open>deleted\<close>.
\<close>

theorem change_record_removed_counterexample:
  "get_report ex_files [(''a.dbc'', ''old/empty.dbc'')] [] False =
     Inr [(PStr ''a.dbc'',
           PDict [(PStr ''action'', PStr ''deleted''), (PStr ''deleted'', PDict []),
                  (PStr ''old_version'', PStr ''unknown''),
                  (PStr ''same_version'', PBool False)])] \<and>
   \<not> file_record [''added'', ''removed'', ''changed'', ''unchanged'']
       (PDict [(PStr ''action'', PStr ''deleted''), (PStr ''deleted'', PDict []),
               (PStr ''old_version'', PStr ''unknown''),
               (PStr ''same_version'', PBool False)])"
  by code_simp

text \<open>
  C4, amended.  Every change record produced at any level carries an \<open>action\<close> tag
  drawn from \<open>added\<close>, \<open>deleted\<close>, \<open>changed\<close>, \<open>unchanged\<close> and, under the key named as the
  tag, the payload of that action: in every file record of a report the message records
  by name, in every message record a list of property deltas (and under \<open>signals\<close> the
  signal records by name), in every signal record a list of property deltas.
\<close>

theorem change_record_actions:
  "(get_report load_file old_files new_files unchanged = Inr report \<longrightarrow>
      list_all (\<lambda>(k, r). is_str k \<and>
          file_record [''added'', ''deleted'', ''changed'', ''unchanged''] r) report) \<and>
   (compare_dbc load_file old_path new_path = Inr (dbc_report, versions) \<longrightarrow>
      list_all (\<lambda>(k, r). is_str k \<and>
          message_record [''added'', ''deleted'', ''changed'', ''unchanged''] r) dbc_report) \<and>
   (compare_messages old_message new_message = Inr (changes, signals_changes) \<longrightarrow>
      list_all (\<lambda>(k, r). is_str k \<and>
          signal_record [''added'', ''deleted'', ''changed'', ''unchanged''] r) signals_changes)"
  using get_report_records
    [of load_file old_files new_files unchanged report
        "[''added'', ''deleted'', ''changed'', ''unchanged'']"]
    compare_dbc_records
    [of load_file old_path new_path dbc_report versions
        "[''added'', ''deleted'', ''changed'', ''unchanged'']"]
    compare_messages_records
    [of old_message new_message changes signals_changes
        "[''added'', ''deleted'', ''changed'', ''unchanged'']"]
  by (auto simp: named_records_def)

theorem change_record_actions_witness:
  "get_report ex_files [(''a.dbc'', ''old/empty.dbc'')] [(''b.dbc'', ''new/empty.dbc'')] False =
     Inr [(PStr ''b.dbc'',
           PDict [(PStr ''action'', PStr ''added''), (PStr ''added'', PDict []),
                  (PStr ''new_version'', PStr ''unknown''),
                  (PStr ''same_version'', PBool False)]),
          (PStr ''a.dbc'',
           PDict [(PStr ''action'', PStr ''deleted''), (PStr ''deleted'', PDict []),
                  (PStr ''old_version'', PStr ''unknown''),
                  (PStr ''same_version'', PBool False)])] \<and>
   file_record [''added'', ''deleted'', ''changed'', ''unchanged'']
     (PDict [(PStr ''action'', PStr ''deleted''), (PStr ''deleted'', PDict []),
             (PStr ''old_version'', PStr ''unknown''),
             (PStr ''same_version'', PBool False)])"
proof -
  let ?report =
    "[(PStr ''b.dbc'',
       PDict [(PStr ''action'', PStr ''added''), (PStr ''added'', PDict []),
              (PStr ''new_version'', PStr ''unknown''),
              (PStr ''same_version'', PBool False)]),
      (PStr ''a.dbc'',
       PDict [(PStr ''action'', PStr ''deleted''), (PStr ''deleted'', PDict []),
              (PStr ''old_version'', PStr ''unknown''),
              (PStr ''same_version'', PBool False)])]"
  have run: "get_report ex_files [(''a.dbc'', ''old/empty.dbc'')]
      [(''b.dbc'', ''new/empty.dbc'')] False = Inr ?report"
    by code_simp
  have "list_all (\<lambda>(k, r). is_str k \<and>
          file_record [''added'', ''deleted'', ''changed'', ''unchanged''] r) ?report"
    using change_record_actions
      [of ex_files "[(''a.dbc'', ''old/empty.dbc'')]" "[(''b.dbc'', ''new/empty.dbc'')]" False
          ?report]
      run
    by blast
  then show ?thesis
    using run by simp
qed

section \<open>Version metadata\<close>

lemma dbc_loader_version:
  "dbc_loader load_file path = Inr (catalog, v) \<Longrightarrow> v = side_version load_file path"
  by (auto simp: dbc_loader_def side_version_def and_then_Inr_iff split: option.splits)

lemma dbc_loader_supplied:
  "dbc_loader load_file (Some p) = Inr (catalog, v) \<Longrightarrow> \<exists>s. v = Some s"
  by (auto simp: dbc_loader_def and_then_Inr_iff split: option.splits)

text \<open>
  C5 as the specification states it: \<open>same_version\<close> compares the two version strings,
  each side defaulted to \<open>unknown\<close> when that side is entirely absent.  The loader gives
  an absent side the version \<open>None\<close>, not \<open>unknown\<close>: against a supplied catalog that has
  no version of its own, both strings of the specification are \<open>unknown\<close>, yet
  \<open>same_version\<close> is false.
\<close>

theorem same_version_absent_side_counterexample:
  "and_then (compare_dbc ex_files None (Some ''new/empty.dbc''))
       (\<lambda>(report, versions). dict_get versions (PStr ''same_version'')) = Inr (PBool False) \<and>
   spec_version ex_files None = ''unknown'' \<and>
   spec_version ex_files (Some ''new/empty.dbc'') = ''unknown''"
  by code_simp

text \<open>
  C5, amended.  Whenever \<open>compare_dbc\<close> returns, the version metadata holds
  \<open>same_version\<close>, the equality of the two versions as the loader returns them: for a
  supplied side the version string of its catalog, \<open>unknown\<close> standing for a missing or
  empty one, and \<open>None\<close> for an absent side (so \<open>same_version\<close> is true when both sides are
  absent and false when exactly one is).  \<open>old_version\<close> (\<open>new_version\<close>) is present exactly
  when the old (new) side was supplied, and then holds that side's version string.
\<close>

theorem version_metadata:
  assumes "compare_dbc load_file old_path new_path = Inr (report, versions)"
  shows "versions =
      (if new_path \<noteq> None
       then [(PStr ''new_version'', version_value (side_version load_file new_path))] else []) @
      (if old_path \<noteq> None
       then [(PStr ''old_version'', version_value (side_version load_file old_path))] else []) @
      [(PStr ''same_version'',
        PBool (side_version load_file old_path = side_version load_file new_path))] \<and>
    dict_get versions (PStr ''same_version'') =
      Inr (PBool (side_version load_file old_path = side_version load_file new_path)) \<and>
    (PStr ''old_version'' \<in> set (keys versions) \<longleftrightarrow> old_path \<noteq> None) \<and>
    (PStr ''new_version'' \<in> set (keys versions) \<longleftrightarrow> new_path \<noteq> None) \<and>
    (old_path \<noteq> None \<longrightarrow> side_version load_file old_path \<noteq> None) \<and>
    (new_path \<noteq> None \<longrightarrow> side_version load_file new_path \<noteq> None)"
proof -
  from compare_dbc_Inr [OF assms] obtain old_dbc old_version new_dbc new_version where
    lo: "dbc_loader load_file old_path = Inr (old_dbc, old_version)"
    and ln: "dbc_loader load_file new_path = Inr (new_dbc, new_version)"
    and vs: "versions = version_entries old_path new_path old_version new_version"
    by blast
  have ov: "old_version = side_version load_file old_path"
    and nv: "new_version = side_version load_file new_path"
    using lo ln by (auto dest: dbc_loader_version)
  have "old_path \<noteq> None \<longrightarrow> old_version \<noteq> None" "new_path \<noteq> None \<longrightarrow> new_version \<noteq> None"
    using lo ln by (auto dest: dbc_loader_supplied)
  then show ?thesis
    unfolding vs ov [symmetric] nv [symmetric]
    by (auto simp: version_entries_def keys_def)
qed

theorem version_metadata_witness:
  "compare_dbc ex_files (Some ''old/empty.dbc'') (Some ''new/empty.dbc'') =
     Inr ([], [(PStr ''new_version'', PStr ''unknown''), (PStr ''old_version'', PStr ''unknown''),
               (PStr ''same_version'', PBool True)]) \<and>
   side_version ex_files (Some ''old/empty.dbc'') = Some ''unknown'' \<and>
   side_version ex_files (Some ''new/empty.dbc'') = Some ''unknown''"
proof -
  have run: "compare_dbc ex_files (Some ''old/empty.dbc'') (Some ''new/empty.dbc'') =
     Inr ([], [(PStr ''new_version'', PStr ''unknown''), (PStr ''old_version'', PStr ''unknown''),
               (PStr ''same_version'', PBool True)])"
    by code_simp
  show ?thesis
    using version_metadata [OF run] run by (simp add: version_value_def split: option.splits)
qed

section \<open>The file-set differ\<close>

lemma wrap_eq:
  assumes "a \<notin> {''action'', ''new_version'', ''old_version'', ''same_version''}"
  shows "dict_union (build_change a payload PNone) (version_entries op np ov nv) =
           (PStr ''action'', PStr a) # (PStr a, payload) # version_entries op np ov nv"
proof -
  have "dict_union (build_change a payload PNone) (version_entries op np ov nv) =
          build_change a payload PNone @ version_entries op np ov nv"
    using assms version_entries_keys [of op np ov nv]
    by (intro dict_union_fresh) (auto simp: build_change_2 keys_def)
  then show ?thesis using assms by (simp add: build_change_2)
qed

text \<open>
  C6 as the specification states it: a file that is only in the old collection is
  wrapped as \<open>removed\<close>.  The program wraps it as \<open>deleted\<close>, and its record has no key
  \<open>removed\<close>.
\<close>

theorem deleted_file_wrap_counterexample:
  "and_then (get_report ex_files [(''gone.dbc'', ''new/m2.dbc'')] [] False)
       (\<lambda>report. dict_get report (PStr ''gone.dbc''))
     = Inr (PDict [(PStr ''action'', PStr ''deleted''),
                   (PStr ''deleted'', PDict [(PStr ''M2'', m2_deleted)]),
                   (PStr ''old_version'', PStr ''2.1''),
                   (PStr ''same_version'', PBool False)]) \<and>
   and_then (get_report ex_files [(''gone.dbc'', ''new/m2.dbc'')] [] False)
       (\<lambda>report. and_then (dict_get report (PStr ''gone.dbc''))
          (\<lambda>r. subscript r (PStr ''removed'')))
     = Inl KeyError"
  by code_simp

text \<open>
  C6, amended.  Whenever \<open>get_report\<close> returns, for every value of the flag:
  a file present in both collections has been diffed with both sides supplied, and it
  appears wrapped as \<open>changed\<close> exactly when its catalog diff is not empty or
  \<open>same_version\<close> is false; otherwise it appears wrapped as \<open>unchanged\<close> if the flag is
  set and is not in the report if it is not.  A file only in the new collection has been
  diffed with the old side absent and appears wrapped as \<open>added\<close>; a file only in the
  old collection has been diffed with the new side absent and appears wrapped as
  \<open>deleted\<close>.  A wrapped diff is the record with the \<open>action\<close> tag, the catalog diff
  under the key of that name, and the version metadata after them.  The report has no
  other entries.
\<close>

theorem file_set_differ:
  assumes "get_report load_file old_files new_files unchanged = Inr report"
  shows
    "(\<forall>n old_path new_path.
        dict_get old_files n = Inr old_path \<and> dict_get new_files n = Inr new_path \<longrightarrow>
        (\<exists>dbc_report versions same_version.
           compare_dbc load_file (Some old_path) (Some new_path) = Inr (dbc_report, versions) \<and>
           dict_get versions (PStr ''same_version'') = Inr (PBool same_version) \<and>
           (if dbc_report \<noteq> [] \<or> \<not> same_version then
              dict_get report (PStr n) =
                Inr (PDict ((PStr ''action'', PStr ''changed'') #
                            (PStr ''changed'', PDict dbc_report) # versions))
            else if unchanged then
              dict_get report (PStr n) =
                Inr (PDict ((PStr ''action'', PStr ''unchanged'') #
                            (PStr ''unchanged'', PDict dbc_report) # versions))
            else PStr n \<notin> set (keys report)))) \<and>
     (\<forall>n new_path.
        n \<notin> set (keys old_files) \<and> dict_get new_files n = Inr new_path \<longrightarrow>
        (\<exists>dbc_report versions.
           compare_dbc load_file None (Some new_path) = Inr (dbc_report, versions) \<and>
           dict_get report (PStr n) =
             Inr (PDict ((PStr ''action'', PStr ''added'') #
                         (PStr ''added'', PDict dbc_report) # versions)))) \<and>
     (\<forall>n old_path.
        n \<notin> set (keys new_files) \<and> dict_get old_files n = Inr old_path \<longrightarrow>
        (\<exists>dbc_report versions.
           compare_dbc load_file (Some old_path) None = Inr (dbc_report, versions) \<and>
           dict_get report (PStr n) =
             Inr (PDict ((PStr ''action'', PStr ''deleted'') #
                         (PStr ''deleted'', PDict dbc_report) # versions)))) \<and>
     set (keys report) \<subseteq> PStr ` (set (keys old_files) \<union> set (keys new_files))"
proof -
  obtain added same deleted where
    cd: "compare_dictionaries old_files new_files = (added, same, deleted)"
    by (cases "compare_dictionaries old_files new_files") auto
  note sets = compare_dictionaries_sets [OF cd]
  note dis = compare_dictionaries_distinct [OF cd]
  from get_report_Inr [OF assms cd] obtain rs1 rs2 rs3 where
    rs1: "list_all2 (\<lambda>n r. added_file load_file new_files n = Inr r) added rs1"
    and rs2: "list_all2 (\<lambda>n r. deleted_file load_file old_files n = Inr r) deleted rs2"
    and rs3: "list_all2 (\<lambda>n r. common_file load_file old_files new_files n = Inr r) same rs3"
    and rp: "report =
         stored PStr (\<lambda>n r. Some r) added rs1 @
         stored PStr (\<lambda>n r. Some r) deleted rs2 @
         stored PStr (\<lambda>n. changed_file unchanged) same rs3"
    by blast
  have dk: "distinct (keys report)"
    and ks: "set (keys report) \<subseteq> PStr ` (set added \<union> set deleted \<union> set same)"
    using three_part_keys [OF rp] dis by auto
  have inj: "inj_on PStr A" for A by (simp add: inj_on_def)
  have found: "dict_get report (PStr n) = Inr v" if "(PStr n, v) \<in> set report" for n v
    using dk that by (rule dict_get_mem_Inr)
  have common: "\<exists>dbc_report versions same_version.
           compare_dbc load_file (Some old_path) (Some new_path) = Inr (dbc_report, versions) \<and>
           dict_get versions (PStr ''same_version'') = Inr (PBool same_version) \<and>
           (if dbc_report \<noteq> [] \<or> \<not> same_version then
              dict_get report (PStr n) =
                Inr (PDict ((PStr ''action'', PStr ''changed'') #
                            (PStr ''changed'', PDict dbc_report) # versions))
            else if unchanged then
              dict_get report (PStr n) =
                Inr (PDict ((PStr ''action'', PStr ''unchanged'') #
                            (PStr ''unchanged'', PDict dbc_report) # versions))
            else PStr n \<notin> set (keys report))"
    if o: "dict_get old_files n = Inr old_path" and nw: "dict_get new_files n = Inr new_path"
    for n old_path new_path
  proof -
    have n: "n \<in> set same" "n \<notin> set added" "n \<notin> set deleted"
      using o nw sets dis by (auto simp: keys_def dest!: dict_get_Inr_mem intro: rev_image_eqI)
    obtain r where r: "common_file load_file old_files new_files n = Inr r"
      using list_all2_result [OF rs3 n(1)] by blast
    then obtain dbc_report versions sv where
      c: "compare_dbc load_file (Some old_path) (Some new_path) = Inr (dbc_report, versions)"
      and s: "dict_get versions (PStr ''same_version'') = Inr sv"
      and r': "r = (dbc_report, versions, sv)"
      using o nw by (auto simp: common_file_def and_then_Inr_iff)
    obtain ov nv where v: "versions = version_entries (Some old_path) (Some new_path) ov nv"
      using compare_dbc_versions [OF c] by blast
    then obtain b where b: "sv = PBool b"
      using s by (auto simp: version_entries_def)
    have truth: "py_truth sv = b" by (simp add: b py_truth_def)
    show ?thesis
    proof (cases "changed_file unchanged r")
      case None
      then have "PStr n \<notin> set (keys (stored PStr (\<lambda>n. changed_file unchanged) same rs3))"
        using stored_lookup_None [OF rs3 inj n(1) r, of "\<lambda>n. changed_file unchanged"] by simp
      moreover have "PStr n \<notin> set (keys (stored PStr (\<lambda>n r. Some r) added rs1))"
        "PStr n \<notin> set (keys (stored PStr (\<lambda>n r. Some r) deleted rs2))"
        using n stored_keys [of PStr "\<lambda>n r. Some r" added rs1]
          stored_keys [of PStr "\<lambda>n r. Some r" deleted rs2] by auto
      ultimately have "PStr n \<notin> set (keys report)"
        by (simp add: rp keys_def)
      then show ?thesis
        using None c s b truth by (auto simp: changed_file_def r' split: if_splits)
    next
      case (Some v)
      then have "(PStr n, v) \<in> set report"
        using stored_lookup_Some [OF rs3 n(1) r, of "\<lambda>n. changed_file unchanged" v PStr]
        by (simp add: rp)
      then have "dict_get report (PStr n) = Inr v" by (rule found)
      then show ?thesis
        using Some c s b truth
        by (auto simp: changed_file_def r' v wrap_eq split: if_splits)
    qed
  qed
  have add: "\<exists>dbc_report versions.
           compare_dbc load_file None (Some new_path) = Inr (dbc_report, versions) \<and>
           dict_get report (PStr n) =
             Inr (PDict ((PStr ''action'', PStr ''added'') #
                         (PStr ''added'', PDict dbc_report) # versions))"
    if o: "n \<notin> set (keys old_files)" and nw: "dict_get new_files n = Inr new_path"
    for n new_path
  proof -
    have n: "n \<in> set added"
      using o nw sets by (auto simp: keys_def dest!: dict_get_Inr_mem intro: rev_image_eqI)
    obtain r where r: "added_file load_file new_files n = Inr r"
      using list_all2_result [OF rs1 n] by blast
    then obtain dbc_report versions where
      c: "compare_dbc load_file None (Some new_path) = Inr (dbc_report, versions)"
      and r': "r = PDict (dict_union (build_change ''added'' (PDict dbc_report) PNone) versions)"
      using nw by (auto simp: added_file_def and_then_Inr_iff)
    have "(PStr n, r) \<in> set report"
      using stored_lookup_Some [OF rs1 n r, of "\<lambda>n r. Some r" r PStr] by (simp add: rp)
    then have "dict_get report (PStr n) = Inr r" by (rule found)
    moreover obtain ov nv where "versions = version_entries None (Some new_path) ov nv"
      using compare_dbc_versions [OF c] by blast
    ultimately show ?thesis
      using c by (auto simp: r' wrap_eq)
  qed
  have del: "\<exists>dbc_report versions.
           compare_dbc load_file (Some old_path) None = Inr (dbc_report, versions) \<and>
           dict_get report (PStr n) =
             Inr (PDict ((PStr ''action'', PStr ''deleted'') #
                         (PStr ''deleted'', PDict dbc_report) # versions))"
    if nw: "n \<notin> set (keys new_files)" and o: "dict_get old_files n = Inr old_path"
    for n old_path
  proof -
    have n: "n \<in> set deleted"
      using o nw sets by (auto simp: keys_def dest!: dict_get_Inr_mem intro: rev_image_eqI)
    obtain r where r: "deleted_file load_file old_files n = Inr r"
      using list_all2_result [OF rs2 n] by blast
    then obtain dbc_report versions where
      c: "compare_dbc load_file (Some old_path) None = Inr (dbc_report, versions)"
      and r': "r = PDict (dict_union (build_change ''deleted'' (PDict dbc_report) PNone) versions)"
      using o by (auto simp: deleted_file_def and_then_Inr_iff)
    have "(PStr n, r) \<in> set report"
      using stored_lookup_Some [OF rs2 n r, of "\<lambda>n r. Some r" r PStr] by (simp add: rp)
    then have "dict_get report (PStr n) = Inr r" by (rule found)
    moreover obtain ov nv where "versions = version_entries (Some old_path) None ov nv"
      using compare_dbc_versions [OF c] by blast
    ultimately show ?thesis
      using c by (auto simp: r' wrap_eq)
  qed
  have "set (keys report) \<subseteq> PStr ` (set (keys old_files) \<union> set (keys new_files))"
    using ks sets by auto
  then show ?thesis
    using common add del by blast
qed

theorem file_set_differ_witness:
  "get_report ex_files
       [(''a.dbc'', ''old/empty.dbc''), (''c.dbc'', ''new/m2.dbc'')]
       [(''a.dbc'', ''new/empty.dbc''), (''d.dbc'', ''new/m2.dbc'')] True
     = Inr [(PStr ''d.dbc'',
             PDict [(PStr ''action'', PStr ''added''),
                    (PStr ''added'', PDict [(PStr ''M2'', m2_added)]),
                    (PStr ''new_version'', PStr ''2.1''),
                    (PStr ''same_version'', PBool False)]),
            (PStr ''c.dbc'',
             PDict [(PStr ''action'', PStr ''deleted''),
                    (PStr ''deleted'', PDict [(PStr ''M2'', m2_deleted)]),
                    (PStr ''old_version'', PStr ''2.1''),
                    (PStr ''same_version'', PBool False)]),
            (PStr ''a.dbc'',
             PDict [(PStr ''action'', PStr ''unchanged''),
                    (PStr ''unchanged'', PDict []),
                    (PStr ''new_version'', PStr ''unknown''),
                    (PStr ''old_version'', PStr ''unknown''),
                    (PStr ''same_version'', PBool True)])] \<and>
   compare_dbc ex_files (Some ''new/m2.dbc'') None
     = Inr ([(PStr ''M2'', m2_deleted)],
            [(PStr ''old_version'', PStr ''2.1''), (PStr ''same_version'', PBool False)]) \<and>
   and_then (get_report ex_files
       [(''a.dbc'', ''old/empty.dbc''), (''c.dbc'', ''new/m2.dbc'')]
       [(''a.dbc'', ''new/empty.dbc''), (''d.dbc'', ''new/m2.dbc'')] True)
       (\<lambda>report. dict_get report (PStr ''c.dbc''))
     = Inr (PDict [(PStr ''action'', PStr ''deleted''),
                   (PStr ''deleted'', PDict [(PStr ''M2'', m2_deleted)]),
                   (PStr ''old_version'', PStr ''2.1''),
                   (PStr ''same_version'', PBool False)])"
proof -
  let ?old = "[(''a.dbc'', ''old/empty.dbc''), (''c.dbc'', ''new/m2.dbc'')]"
  let ?new = "[(''a.dbc'', ''new/empty.dbc''), (''d.dbc'', ''new/m2.dbc'')]"
  let ?report =
    "[(PStr ''d.dbc'',
       PDict [(PStr ''action'', PStr ''added''),
              (PStr ''added'', PDict [(PStr ''M2'', m2_added)]),
              (PStr ''new_version'', PStr ''2.1''),
              (PStr ''same_version'', PBool False)]),
      (PStr ''c.dbc'',
       PDict [(PStr ''action'', PStr ''deleted''),
              (PStr ''deleted'', PDict [(PStr ''M2'', m2_deleted)]),
              (PStr ''old_version'', PStr ''2.1''),
              (PStr ''same_version'', PBool False)]),
      (PStr ''a.dbc'',
       PDict [(PStr ''action'', PStr ''unchanged''),
              (PStr ''unchanged'', PDict []),
              (PStr ''new_version'', PStr ''unknown''),
              (PStr ''old_version'', PStr ''unknown''),
              (PStr ''same_version'', PBool True)])]"
  have run: "get_report ex_files ?old ?new True = Inr ?report"
    by code_simp
  have cd: "compare_dbc ex_files (Some ''new/m2.dbc'') None
     = Inr ([(PStr ''M2'', m2_deleted)],
            [(PStr ''old_version'', PStr ''2.1''), (PStr ''same_version'', PBool False)])"
    by code_simp
  have only_old: "''c.dbc'' \<notin> set (keys ?new)" "dict_get ?old ''c.dbc'' = Inr ''new/m2.dbc''"
    by (simp_all add: keys_def)
  from file_set_differ [OF run] only_old
  have "\<exists>dbc_report versions.
           compare_dbc ex_files (Some ''new/m2.dbc'') None = Inr (dbc_report, versions) \<and>
           dict_get ?report (PStr ''c.dbc'') =
             Inr (PDict ((PStr ''action'', PStr ''deleted'') #
                         (PStr ''deleted'', PDict dbc_report) # versions))"
    by blast
  then have "dict_get ?report (PStr ''c.dbc'') =
      Inr (PDict [(PStr ''action'', PStr ''deleted''),
                  (PStr ''deleted'', PDict [(PStr ''M2'', m2_deleted)]),
                  (PStr ''old_version'', PStr ''2.1''),
                  (PStr ''same_version'', PBool False)])"
    unfolding cd by auto
  then show ?thesis
    unfolding run cd by simp
qed

section \<open>Choice maps\<close>

lemma map_of_dict_set: "map_of (dict_set d k v) = (map_of d)(k \<mapsto> v)"
  by (induction d) (auto simp: fun_eq_iff)

lemma fold_dict_set_map_of:
  "map_of (fold (\<lambda>(k, v) r. dict_set r k v) xs acc) = map_of acc ++ map_of (rev xs)"
proof (induction xs arbitrary: acc)
  case Nil
  then show ?case by simp
next
  case (Cons x xs)
  obtain k v where x: "x = (k, v)" by (cases x)
  show ?case
    by (simp add: x Cons.IH map_of_dict_set map_add_def fun_eq_iff split: option.splits)
qed

lemma fold_dict_set_keys_distinct:
  "distinct (keys acc) \<Longrightarrow> distinct (keys (fold (\<lambda>(k, v) r. dict_set r k v) xs acc))"
  by (induction xs arbitrary: acc) (auto simp: dict_set_distinct)

lemma choice_loop_eq:
  "for_each d acc (\<lambda>(number, name) result.
       and_then (py_str name) (\<lambda>label.
       and_then (py_int number) (\<lambda>i. Inr (dict_set result i label))))
   = and_then (choice_items d) (\<lambda>xs. Inr (fold (\<lambda>(k, v) r. dict_set r k v) xs acc))"
proof (induction d arbitrary: acc)
  case Nil
  then show ?case by (simp add: choice_items_def)
next
  case (Cons x d)
  obtain number name where x: "x = (number, name)" by (cases x)
  show ?case
  proof (cases "py_str name")
    case (Inl e)
    then show ?thesis by (simp add: x choice_items_def)
  next
    case label: (Inr label)
    show ?thesis
    proof (cases "py_int number")
      case (Inl e)
      then show ?thesis using label by (simp add: x choice_items_def)
    next
      case (Inr i)
      show ?thesis
        using Cons.IH [of "dict_set acc i label"] Inr label
        by (cases "choice_items d") (auto simp: x choice_items_def)
    qed
  qed
qed

lemma converter_choices:
  assumes "choice_items d = Inr xs"
  shows "converter (PDict d) ''dict'' =
           Inr (normal_choices (sort (fold (\<lambda>(k, v) r. dict_set r k v) xs [])))"
  using assms
  by (simp add: converter_def py_items_def choice_loop_eq normal_choices_def)

lemma sorted_fst:
  fixes r :: "(int \<times> string) list"
  shows "sorted r \<Longrightarrow> sorted (map fst r)"
  by (induction r) (auto simp: less_eq_prod_def)

lemma sorted_keys_sort:
  fixes r :: "(int \<times> string) list"
  assumes "distinct (map fst r)"
  shows "sorted (map fst (sort r))" "distinct (map fst (sort r))" "map_of (sort r) = map_of r"
proof -
  show d: "distinct (map fst (sort r))"
    using assms by (rule distinct_keys_sort)
  show "sorted (map fst (sort r))"
    by (rule sorted_fst) simp
  show "map_of (sort r) = map_of r"
    using assms d by (simp add: map_of_inject_set)
qed

lemma py_lookup_normal:
  "py_lookup (map (\<lambda>(k, v). (PInt k, PStr v)) ys) (PInt k) = map_option PStr (map_of ys k)"
  by (induction ys) (auto simp: atom_eq_def)

lemma py_eq_items_normal:
  "py_eq_items (map (\<lambda>(k, v). (PInt k, PStr v)) xs) (map (\<lambda>(k, v). (PInt k, PStr v)) ys)
     \<longleftrightarrow> (\<forall>(k, v) \<in> set xs. map_of ys k = Some v)"
  by (induction xs) (auto simp: py_lookup_normal atom_eq_def split: option.splits)

lemma py_eq_normal:
  assumes "distinct (map fst xs)" "distinct (map fst ys)"
  shows "py_eq (normal_choices xs) (normal_choices ys) \<longleftrightarrow> map_of xs = map_of ys"
proof
  assume "py_eq (normal_choices xs) (normal_choices ys)"
  then have len: "length xs = length ys"
    and sub: "\<forall>(k, v) \<in> set xs. map_of ys k = Some v"
    by (simp_all add: normal_choices_def py_eq_items_normal)
  have "set xs \<subseteq> set ys"
    using sub by (auto dest: map_of_SomeD)
  moreover have "card (set xs) = card (set ys)"
    using assms len by (simp add: distinct_card distinct_map)
  ultimately have "set xs = set ys"
    by (simp add: card_subset_eq)
  then show "map_of xs = map_of ys"
    using assms by (simp add: map_of_inject_set)
next
  assume eq: "map_of xs = map_of ys"
  then have s: "set xs = set ys"
    using assms by (simp add: map_of_inject_set)
  have "length xs = card (set xs)" "length ys = card (set ys)"
    using assms by (simp_all add: distinct_card distinct_map)
  then have "length xs = length ys" using s by simp
  moreover have "\<forall>(k, v) \<in> set xs. map_of ys k = Some v"
    using assms(2) s by auto
  ultimately show "py_eq (normal_choices xs) (normal_choices ys)"
    by (simp add: normal_choices_def py_eq_items_normal)
qed

lemma converter_content:
  assumes "choice_content value = Some m"
  shows "\<exists>items. converter value ''dict'' = Inr (normal_choices items) \<and>
           sorted (map fst items) \<and> distinct (map fst items) \<and> map_of items = m"
proof -
  from assms obtain d xs where d: "value = PDict d" "choice_items d = Inr xs"
    and m: "m = map_of (rev xs)"
    by (auto simp: choice_content_def split: pyval.splits sum.splits)
  let ?r = "fold (\<lambda>(k, v) r. dict_set r k v) xs []"
  have dist: "distinct (map fst ?r)"
    using fold_dict_set_keys_distinct [of "[]" xs] by (simp add: keys_def)
  have "map_of ?r = m"
    by (simp add: fold_dict_set_map_of m)
  then show ?thesis
    using converter_choices [OF d(2)] sorted_keys_sort [OF dist] d(1) by auto
qed

lemma choice_items_nth:
  assumes "choice_items d = Inr xs"
  shows "length xs = length d"
    and "i < length d \<Longrightarrow>
           py_str (snd (d ! i)) = Inr (snd (xs ! i)) \<and> py_int (fst (d ! i)) = Inr (fst (xs ! i))"
proof -
  have all: "list_all2 (\<lambda>x y. (case x of (k, v) \<Rightarrow>
        and_then (py_str v) (\<lambda>label.
        and_then (py_int k) (\<lambda>i. Inr (i, label)))) = Inr y) d xs"
    using assms by (simp add: choice_items_def map_err_Inr_iff)
  then show len: "length xs = length d"
    by (simp add: list_all2_lengthD)
  show "py_str (snd (d ! i)) = Inr (snd (xs ! i)) \<and> py_int (fst (d ! i)) = Inr (fst (xs ! i))"
    if "i < length d"
    using list_all2_nthD [OF all that]
    by (cases "d ! i"; cases "xs ! i") (auto simp: and_then_Inr_iff)
qed

lemma one_label_changes_content:
  assumes old: "choice_items d = Inr xs" and dist: "distinct (map fst xs)"
    and i: "i < length d"
    and new: "choice_items (d[i := (fst (d ! i), label)]) = Inr ys"
    and label: "py_str label \<noteq> py_str (snd (d ! i))"
  shows "map_of (rev xs) \<noteq> map_of (rev ys)"
proof -
  let ?d = "d[i := (fst (d ! i), label)]"
  have lx: "length xs = length d" and ly: "length ys = length d"
    using choice_items_nth(1) [OF old] choice_items_nth(1) [OF new] by simp_all
  have xi: "py_str (snd (d ! i)) = Inr (snd (xs ! i))" "py_int (fst (d ! i)) = Inr (fst (xs ! i))"
    using choice_items_nth(2) [OF old i] by simp_all
  have yi: "py_str label = Inr (snd (ys ! i))" "py_int (fst (d ! i)) = Inr (fst (ys ! i))"
    using choice_items_nth(2) [OF new, of i] i by simp_all
  have key: "fst (ys ! i) = fst (xs ! i)" and lab: "snd (ys ! i) \<noteq> snd (xs ! i)"
    using xi yi label by auto
  have keys_eq: "map fst ys = map fst xs"
  proof (rule nth_equalityI)
    show "length (map fst ys) = length (map fst xs)" by (simp add: lx ly)
    fix j assume "j < length (map fst ys)"
    then have j: "j < length d" by (simp add: ly)
    show "map fst ys ! j = map fst xs ! j"
    proof (cases "j = i")
      case True
      then show ?thesis using key j lx ly by simp
    next
      case False
      have "py_int (fst (?d ! j)) = Inr (fst (ys ! j))"
        using choice_items_nth(2) [OF new, of j] j by simp
      moreover have "py_int (fst (d ! j)) = Inr (fst (xs ! j))"
        using choice_items_nth(2) [OF old j] by simp
      ultimately show ?thesis using False j lx ly by simp
    qed
  qed
  have "(fst (xs ! i), snd (xs ! i)) \<in> set (rev xs)"
    using i lx by (metis nth_mem prod.collapse set_rev)
  then have ox: "map_of (rev xs) (fst (xs ! i)) = Some (snd (xs ! i))"
    using dist by (intro map_of_is_SomeI) (simp_all add: rev_map [symmetric])
  have "(fst (xs ! i), snd (ys ! i)) \<in> set (rev ys)"
    using i ly key by (metis nth_mem prod.collapse set_rev)
  then have oy: "map_of (rev ys) (fst (xs ! i)) = Some (snd (ys ! i))"
    using dist keys_eq by (intro map_of_is_SomeI) (simp_all add: rev_map [symmetric])
  show ?thesis
    using ox oy lab by (metis option.inject)
qed

text \<open>
  C7.  Take two signals on which the property differ returns, whose choices mappings
  both have a content.  When the contents are the same, whatever the order of the items
  and whether the keys are integers or numeric strings, no delta is about \<open>choices\<close>.
  When the contents differ there is exactly one delta about \<open>choices\<close>; its \<open>old\<close> and
  \<open>new\<close> values are dictionaries with integer keys and string labels, sorted by key,
  that hold the old and the new content.  In particular this is so when the new mapping
  is the old one with exactly one label replaced by a label of another text, the keys of
  the mapping being different integers.
\<close>

theorem choices_normalisation:
  assumes "compare_properties old_signal new_signal signal_properties = Inr changes"
    and "getattr old_signal ''choices'' = Inr old_choices"
    and "getattr new_signal ''choices'' = Inr new_choices"
    and "choice_content old_choices = Some old_map"
    and "choice_content new_choices = Some new_map"
  shows "(old_map = new_map \<longrightarrow> deltas_of ''choices'' changes = []) \<and>
         (old_map \<noteq> new_map \<longrightarrow>
            normalised_delta (deltas_of ''choices'' changes) old_map new_map) \<and>
         (\<forall>d items i label.
            old_choices = PDict d \<and> choice_items d = Inr items \<and> distinct (map fst items) \<and>
            i < length d \<and> new_choices = PDict (d[i := (fst (d ! i), label)]) \<and>
            py_str label \<noteq> py_str (snd (d ! i)) \<longrightarrow>
              normalised_delta (deltas_of ''choices'' changes) old_map new_map)"
proof -
  from converter_content [OF assms(4)] obtain old_items where
    o: "converter old_choices ''dict'' = Inr (normal_choices old_items)"
      "sorted (map fst old_items)" "distinct (map fst old_items)" "map_of old_items = old_map"
    by blast
  from converter_content [OF assms(5)] obtain new_items where
    n: "converter new_choices ''dict'' = Inr (normal_choices new_items)"
      "sorted (map fst new_items)" "distinct (map fst new_items)" "map_of new_items = new_map"
    by blast
  have "(''choices'', ''dict'') \<in> set signal_properties"
    and "distinct (map fst signal_properties)"
    by (simp_all add: signal_properties_def)
  from compare_properties_named [OF assms(1) this(2,1)]
  have "property_change old_signal new_signal (''choices'', ''dict'')
          = Inr (deltas_of ''choices'' changes)" .
  then have ds: "deltas_of ''choices'' changes =
      (if \<not> py_eq (normal_choices old_items) (normal_choices new_items)
       then [property_delta ''choices'' (normal_choices old_items) (normal_choices new_items)]
       else [])"
    using assms(2,3) o(1) n(1) by (simp add: property_change_def)
  have eq: "py_eq (normal_choices old_items) (normal_choices new_items) \<longleftrightarrow> old_map = new_map"
    using py_eq_normal [OF o(3) n(3)] o(4) n(4) by simp
  have same: "deltas_of ''choices'' changes = []" if "old_map = new_map"
    using ds eq that by simp
  have differ: "normalised_delta (deltas_of ''choices'' changes) old_map new_map"
    if "old_map \<noteq> new_map"
    unfolding normalised_delta_def
    using ds eq that o(2,3,4) n(2,3,4) by (auto simp: property_delta_def)
  have label: "old_map \<noteq> new_map"
    if d: "old_choices = PDict d" and it: "choice_items d = Inr items"
      and dist: "distinct (map fst items)" and i: "i < length d"
      and nw: "new_choices = PDict (d[i := (fst (d ! i), label)])"
      and l: "py_str label \<noteq> py_str (snd (d ! i))"
    for d items i label
  proof -
    from assms(5) nw obtain ys where
      ys: "choice_items (d[i := (fst (d ! i), label)]) = Inr ys" and nm: "new_map = map_of (rev ys)"
      by (auto simp: choice_content_def split: sum.splits)
    have "old_map = map_of (rev items)"
      using assms(4) d it by (simp add: choice_content_def)
    then show ?thesis
      using one_label_changes_content [OF it dist i ys l] nm by simp
  qed
  show ?thesis
    using same differ label by blast
qed

theorem choices_normalisation_witness:
  "compare_properties (mk_signal ''S1'' (PInt 0) choices_on_off)
     (mk_signal ''S1'' (PInt 5) choices_reordered) signal_properties =
     Inr [PDict [(PStr ''name'', PStr ''minimum''), (PStr ''old'', PInt 0),
                 (PStr ''new'', PInt 5)]] \<and>
   choice_content choices_on_off = Some (map_of [(1, ''ON''), (0, ''OFF'')]) \<and>
   choice_content choices_reordered = Some (map_of [(0, ''OFF''), (1, ''ON'')]) \<and>
   map_of [(1, ''ON''), (0, ''OFF'')] = map_of [(0 :: int, ''OFF''), (1, ''ON'')] \<and>
   deltas_of ''choices''
     [PDict [(PStr ''name'', PStr ''minimum''), (PStr ''old'', PInt 0),
             (PStr ''new'', PInt 5)]] = [] \<and>
   compare_properties (mk_signal ''S1'' (PInt 0) choices_reordered)
     (mk_signal ''S1'' (PInt 0) choices_relabelled) signal_properties =
     Inr [PDict [(PStr ''name'', PStr ''choices''),
                 (PStr ''old'', PDict [(PInt 0, PStr ''OFF''), (PInt 1, PStr ''ON'')]),
                 (PStr ''new'', PDict [(PInt 0, PStr ''off''), (PInt 1, PStr ''ON'')])]] \<and>
   choice_content choices_relabelled = Some (map_of [(0, ''off''), (1, ''ON'')]) \<and>
   normalised_delta
     (deltas_of ''choices''
        [PDict [(PStr ''name'', PStr ''choices''),
                (PStr ''old'', PDict [(PInt 0, PStr ''OFF''), (PInt 1, PStr ''ON'')]),
                (PStr ''new'', PDict [(PInt 0, PStr ''off''), (PInt 1, PStr ''ON'')])]])
     (map_of [(0, ''OFF''), (1, ''ON'')]) (map_of [(0, ''off''), (1, ''ON'')])"
proof -
  let ?a = "mk_signal ''S1'' (PInt 0) choices_on_off"
  let ?b5 = "mk_signal ''S1'' (PInt 5) choices_reordered"
  let ?b = "mk_signal ''S1'' (PInt 0) choices_reordered"
  let ?c = "mk_signal ''S1'' (PInt 0) choices_relabelled"
  let ?minimum = "PDict [(PStr ''name'', PStr ''minimum''), (PStr ''old'', PInt 0),
                 (PStr ''new'', PInt 5)]"
  let ?delta = "PDict [(PStr ''name'', PStr ''choices''),
                 (PStr ''old'', PDict [(PInt 0, PStr ''OFF''), (PInt 1, PStr ''ON'')]),
                 (PStr ''new'', PDict [(PInt 0, PStr ''off''), (PInt 1, PStr ''ON'')])]"
  have ab: "compare_properties ?a ?b5 signal_properties = Inr [?minimum]"
    by code_simp
  have bc: "compare_properties ?b ?c signal_properties = Inr [?delta]"
    by code_simp
  have ga: "getattr ?a ''choices'' = Inr choices_on_off"
    and gb5: "getattr ?b5 ''choices'' = Inr choices_reordered"
    and gb: "getattr ?b ''choices'' = Inr choices_reordered"
    and gc: "getattr ?c ''choices'' = Inr choices_relabelled"
    by (simp_all add: getattr_def mk_signal_def)
  have ia: "choice_items [(PInt 0, PStr ''OFF''), (PInt 1, PStr ''ON'')]
              = Inr [(0, ''OFF''), (1, ''ON'')]"
    and ib: "choice_items [(PStr ''1'', PStr ''ON''), (PInt 0, PStr ''OFF'')]
              = Inr [(1, ''ON''), (0, ''OFF'')]"
    and ic: "choice_items [(PStr ''1'', PStr ''ON''), (PInt 0, PStr ''off'')]
              = Inr [(1, ''ON''), (0, ''off'')]"
    by code_simp+
  have ca: "choice_content choices_on_off = Some (map_of [(1, ''ON''), (0, ''OFF'')])"
    and cb: "choice_content choices_reordered = Some (map_of [(0, ''OFF''), (1, ''ON'')])"
    and cc: "choice_content choices_relabelled = Some (map_of [(0, ''off''), (1, ''ON'')])"
    by (simp_all add: choice_content_def choices_on_off_def choices_reordered_def
          choices_relabelled_def ia ib ic)
  have m: "map_of [(1, ''ON''), (0, ''OFF'')] = map_of [(0 :: int, ''OFF''), (1, ''ON'')]"
    by (rule ext) simp
  have "deltas_of ''choices'' [?minimum] = []"
    using choices_normalisation [OF ab ga gb5 ca cb] m by simp
  moreover have "normalised_delta (deltas_of ''choices'' [?delta])
     (map_of [(0, ''OFF''), (1, ''ON'')]) (map_of [(0, ''off''), (1, ''ON'')])"
  proof -
    let ?d = "[(PStr ''1'', PStr ''ON''), (PInt 0, PStr ''OFF'')]"
    have "choices_reordered = PDict ?d \<and> choice_items ?d = Inr [(1, ''ON''), (0, ''OFF'')] \<and>
          distinct (map fst [(1 :: int, ''ON''), (0, ''OFF'')]) \<and> 1 < length ?d \<and>
          choices_relabelled = PDict (?d[1 := (fst (?d ! 1), PStr ''off'')]) \<and>
          py_str (PStr ''off'') \<noteq> py_str (snd (?d ! 1))"
      by (simp add: choices_reordered_def choices_relabelled_def ib py_str_def)
    then show ?thesis
      using choices_normalisation [OF bc gb gc cb cc] by blast
  qed
  ultimately show ?thesis
    using ab bc ca cb cc m by simp
qed

section \<open>Hexadecimal identifiers\<close>

lemma hex_100: "converter (PInt 100) ''hex'' = Inr (PStr ''0x64'')"
  by code_simp

lemma hex_101: "converter (PInt 101) ''hex'' = Inr (PStr ''0x65'')"
  by code_simp

text \<open>
  C8.  The message schema normalises \<open>frame_id\<close> with \<open>hex\<close>.  Whenever the property
  differ returns on two messages, whatever their other attributes: if both identifiers
  are the integer 100, no delta is about \<open>frame_id\<close>; if the old one is 100 and the new
  one 101, exactly one delta is about \<open>frame_id\<close>, with \<open>old\<close> the string \<open>0x64\<close> and \<open>new\<close>
  the string \<open>0x65\<close>.
\<close>

theorem frame_id_hex_delta:
  assumes "compare_properties old_message new_message message_properties = Inr changes"
    and "getattr old_message ''frame_id'' = Inr (PInt 100)"
  shows "(getattr new_message ''frame_id'' = Inr (PInt 100) \<longrightarrow>
            deltas_of ''frame_id'' changes = []) \<and>
         (getattr new_message ''frame_id'' = Inr (PInt 101) \<longrightarrow>
            deltas_of ''frame_id'' changes =
              [PDict [(PStr ''name'', PStr ''frame_id''), (PStr ''old'', PStr ''0x64''),
                      (PStr ''new'', PStr ''0x65'')]])"
proof -
  have "property_change old_message new_message (''frame_id'', ''hex'')
          = Inr (deltas_of ''frame_id'' changes)"
    by (rule compare_properties_named [OF assms(1)]) (simp_all add: message_properties_def)
  then show ?thesis
    using assms(2)
    by (auto simp: property_change_def hex_100 hex_101 atom_eq_def property_delta_def)
qed

theorem frame_id_hex_delta_witness:
  "compare_properties (mk_message ''M1'' 100 []) (mk_message ''M1'' 101 []) message_properties
     = Inr [PDict [(PStr ''name'', PStr ''frame_id''), (PStr ''old'', PStr ''0x64''),
                   (PStr ''new'', PStr ''0x65'')]] \<and>
   compare_properties (mk_message ''M1'' 100 []) (mk_message ''M2'' 100 []) message_properties
     = Inr [] \<and>
   deltas_of ''frame_id''
     [PDict [(PStr ''name'', PStr ''frame_id''), (PStr ''old'', PStr ''0x64''),
             (PStr ''new'', PStr ''0x65'')]]
     = [PDict [(PStr ''name'', PStr ''frame_id''), (PStr ''old'', PStr ''0x64''),
               (PStr ''new'', PStr ''0x65'')]]"
proof -
  have run: "compare_properties (mk_message ''M1'' 100 []) (mk_message ''M1'' 101 [])
      message_properties
     = Inr [PDict [(PStr ''name'', PStr ''frame_id''), (PStr ''old'', PStr ''0x64''),
                   (PStr ''new'', PStr ''0x65'')]]"
    by code_simp
  have same: "compare_properties (mk_message ''M1'' 100 []) (mk_message ''M2'' 100 [])
      message_properties = Inr []"
    by code_simp
  have old: "getattr (mk_message ''M1'' 100 []) ''frame_id'' = Inr (PInt 100)"
    by code_simp
  have new: "getattr (mk_message ''M1'' 101 []) ''frame_id'' = Inr (PInt 101)"
    by code_simp
  show ?thesis
    using frame_id_hex_delta [OF run old] new run same by simp
qed

section \<open>The unknown action\<close>

text \<open>
  C9 as the specification states it: the closed set of action names is
  \<open>{added, removed, changed}\<close>, and a name outside it is fatal in the builder.  The
  builder accepts another set: \<open>deleted\<close>, which is outside the set of the
  specification, gives a record, and it is the name the program passes for every message
  and signal of an old catalog; \<open>removed\<close> and \<open>changed\<close>, which are inside, are fatal.
\<close>

theorem closed_action_set_counterexample:
  "and_then (build_action ''deleted'' (mk_signal ''S1'' (PInt 0) PNone) signal_properties PNone)
     (\<lambda>record. dict_get record (PStr ''action'')) = Inr (PStr ''deleted'') \<and>
   and_then (compare_dbc ex_files (Some ''old/a.dbc'') None) (\<lambda>(report, versions).
     and_then (dict_get report (PStr ''M1'')) (\<lambda>m. subscript m (PStr ''action'')))
     = Inr (PStr ''deleted'') \<and>
   build_action ''removed'' (mk_signal ''S1'' (PInt 0) PNone) signal_properties PNone
     = Inl CriticalError \<and>
   build_action ''changed'' (mk_signal ''S1'' (PInt 0) PNone) signal_properties PNone
     = Inl CriticalError"
  by code_simp

text \<open>
  C9, amended.  The set of action names that \<open>build_action\<close> accepts is
  \<open>{added, deleted}\<close>.  A name outside it is fatal as soon as the schema has an entry:
  the call ends in an error on its first pass and returns no record, the error being the
  critical one unless reading or converting the first attribute raised before; so it is
  with both schemas of the program.  With \<open>added\<close> or \<open>deleted\<close> the critical error is
  never the outcome.  The program itself only ever passes \<open>added\<close> or \<open>deleted\<close>, so
  the critical error is not the outcome of \<open>compare_messages\<close>, \<open>compare_dbc\<close> or
  \<open>get_report\<close> on any input.
\<close>

theorem unknown_action_fatal_unreachable:
  "(action \<noteq> ''added'' \<and> action \<noteq> ''deleted'' \<longrightarrow>
      build_action action item ((p, from_type) # properties) signals =
        (case getattr item p of
           Inl e \<Rightarrow> Inl e
         | Inr raw \<Rightarrow>
             (case converter raw from_type of Inl e \<Rightarrow> Inl e | Inr value \<Rightarrow> Inl CriticalError)) \<and>
      (\<exists>e. build_action action item message_properties signals = Inl e) \<and>
      (\<exists>e. build_action action item signal_properties signals = Inl e)) \<and>
   (action = ''added'' \<or> action = ''deleted'' \<longrightarrow>
      build_action action item properties signals \<noteq> Inl CriticalError) \<and>
   message_properties \<noteq> [] \<and> signal_properties \<noteq> [] \<and>
   compare_messages old_message new_message \<noteq> Inl CriticalError \<and>
   compare_dbc load_file old_path new_path \<noteq> Inl CriticalError \<and>
   get_report load_file old_files new_files unchanged \<noteq> Inl CriticalError"
proof -
  have first: "build_action action item ((q, ft) # rest) signals =
        (case getattr item q of
           Inl e \<Rightarrow> Inl e
         | Inr raw \<Rightarrow>
             (case converter raw ft of Inl e \<Rightarrow> Inl e | Inr value \<Rightarrow> Inl CriticalError))"
    if "action \<noteq> ''added''" "action \<noteq> ''deleted''" for q ft rest
    using that by (auto simp: build_action_def split: sum.splits)
  have fatal: "\<exists>e. build_action action item ((q, ft) # rest) signals = Inl e"
    if "action \<noteq> ''added''" "action \<noteq> ''deleted''" for q ft rest
    unfolding first [OF that] by (auto split: sum.splits)
  have "\<exists>e. build_action action item message_properties signals = Inl e"
    if "action \<noteq> ''added''" "action \<noteq> ''deleted''"
    unfolding message_properties_def using that by (rule fatal)
  moreover have "\<exists>e. build_action action item signal_properties signals = Inl e"
    if "action \<noteq> ''added''" "action \<noteq> ''deleted''"
    unfolding signal_properties_def using that by (rule fatal)
  moreover have "build_action action item properties signals \<noteq> Inl CriticalError"
    if "action = ''added'' \<or> action = ''deleted''"
    using that by (intro build_action_neq_critical) auto
  moreover have "message_properties \<noteq> []" "signal_properties \<noteq> []"
    by (simp_all add: message_properties_def signal_properties_def)
  ultimately show ?thesis
    using first [of p from_type properties]
      compare_messages_neq_critical [of old_message new_message]
      compare_dbc_neq_critical [of load_file old_path new_path]
      get_report_neq_critical [of load_file old_files new_files unchanged]
    by blast
qed

theorem unknown_action_fatal_unreachable_witness:
  "build_action ''renamed'' (mk_signal ''S1'' (PInt 0) PNone) signal_properties PNone
     = Inl CriticalError \<and>
   build_action ''deleted'' (mk_signal ''S1'' (PInt 0) PNone) signal_properties PNone
     \<noteq> Inl CriticalError \<and>
   get_report ex_files [(''a.dbc'', ''old/a.dbc'')] [(''a.dbc'', ''new/a.dbc'')] False
     \<noteq> Inl CriticalError"
proof -
  have "getattr (mk_signal ''S1'' (PInt 0) PNone) ''minimum'' = Inr (PInt 0)"
    by code_simp
  moreover have "converter (PInt 0) ''basic'' = Inr (PInt 0)"
    by code_simp
  ultimately show ?thesis
    using unknown_action_fatal_unreachable
      [of "''renamed''" "mk_signal ''S1'' (PInt 0) PNone" "''minimum''" "''basic''"
          "tl signal_properties" PNone undefined undefined ex_files undefined
          undefined "[(''a.dbc'', ''old/a.dbc'')]" "[(''a.dbc'', ''new/a.dbc'')]" False]
      unknown_action_fatal_unreachable
      [of "''deleted''" "mk_signal ''S1'' (PInt 0) PNone" undefined undefined
          signal_properties PNone]
    by (simp add: signal_properties_def)
qed

end
